theory Spec2Isabelle
  imports
    Complex_Main
    "HOL-Library.Sublist"
    "HOL-Library.AList"
    "HOL-Library.Multiset"
    "HOL-Library.Product_Lexorder"
begin

section \<open>Text primitives of the Python source\<close>

text \<open>
  Text is a list of 8-bit characters. The report of \<^verbatim>\<open>sinfo\<close> and the catalog keys
  are ASCII; a character above 127 is an ordinary character here (no space, no digit,
  no letter), so Unicode spaces, digits and case mappings outside ASCII are outside
  this model. The conversions between integers and text follow CPython 3.11 with its
  default limit of 4300 digits (\<^verbatim>\<open>sys.int_max_str_digits\<close>).
\<close>

definition is_space :: "char \<Rightarrow> bool" where
  \<comment> \<open>\<^verbatim>\<open>str.isspace\<close> on ASCII: TAB, LF, VT, FF, CR, FS, GS, RS, US and the blank.\<close>
  "is_space c \<longleftrightarrow>
     c \<in> set [CHR 0x09, CHR 0x0A, CHR 0x0B, CHR 0x0C, CHR 0x0D,
               CHR 0x1C, CHR 0x1D, CHR 0x1E, CHR 0x1F, CHR 0x20]"

definition strip :: "string \<Rightarrow> string" where
  \<comment> \<open>\<^verbatim>\<open>s.strip()\<close>\<close>
  "strip s = rev (dropWhile is_space (rev (dropWhile is_space s)))"

fun split_on :: "char \<Rightarrow> string \<Rightarrow> string list" where
  \<comment> \<open>\<^verbatim>\<open>s.split(sep)\<close> for a separator of one character: always at least one piece.\<close>
  "split_on sep [] = [[]]"
| "split_on sep (c # cs) =
     (if c = sep then [] # split_on sep cs
      else (case split_on sep cs of
              [] \<Rightarrow> [[c]]
            | w # ws \<Rightarrow> (c # w) # ws))"

fun words_from :: "string \<Rightarrow> string \<Rightarrow> string list" where
  \<comment> \<open>the scan of \<^verbatim>\<open>s.split()\<close>: the first argument is the word read so far\<close>
  "words_from w [] = (if w = [] then [] else [w])"
| "words_from w (c # cs) =
     (if is_space c then (if w = [] then words_from [] cs else w # words_from [] cs)
      else words_from (w @ [c]) cs)"

definition split_ws :: "string \<Rightarrow> string list" where
  \<comment> \<open>\<^verbatim>\<open>s.split()\<close>: pieces between runs of whitespace, none of them empty\<close>
  "split_ws s = words_from [] s"

definition join_blank :: "string list \<Rightarrow> string" where
  \<comment> \<open>\<^verbatim>\<open>' '.join(ws)\<close>\<close>
  "join_blank ws = (case ws of [] \<Rightarrow> [] | w # r \<Rightarrow> w @ concat (map (\<lambda>v. CHR '' '' # v) r))"

definition digit_value :: "char \<Rightarrow> int option" where
  "digit_value c = map_of (zip ''0123456789'' [0, 1, 2, 3, 4, 5, 6, 7, 8, 9]) c"

fun digits_from :: "int \<Rightarrow> bool \<Rightarrow> string \<Rightarrow> int option" where
  \<comment> \<open>decimal digits, single underscores allowed between two digits; the flag says
      that the character before was a digit\<close>
  "digits_from n d [] = (if d then Some n else None)"
| "digits_from n d (c # cs) =
     (case digit_value c of
        Some v \<Rightarrow> digits_from (10 * n + v) True cs
      | None \<Rightarrow> if c = CHR ''_'' \<and> d then digits_from n False cs else None)"

definition int_max_str_digits :: nat where
  \<comment> \<open>the default of \<^verbatim>\<open>sys.int_max_str_digits\<close>\<close>
  "int_max_str_digits = 4300"

definition py_int :: "string \<Rightarrow> int option" where
  \<comment> \<open>\<^verbatim>\<open>int(s)\<close> in base 10; \<open>None\<close> is the \<^verbatim>\<open>ValueError\<close>, raised for a text that is
      no integer and for one of more digits than the limit (the sign, the underscores
      and the surrounding whitespace do not count)\<close>
  "py_int s =
     (case strip s of
        [] \<Rightarrow> None
      | c # r \<Rightarrow>
          (let body = (if c = CHR ''-'' \<or> c = CHR ''+'' then r else c # r) in
           if int_max_str_digits < length (filter (\<lambda>d. digit_value d \<noteq> None) body) then None
           else if c = CHR ''-'' then map_option uminus (digits_from 0 False r)
           else if c = CHR ''+'' then digits_from 0 False r
           else digits_from 0 False (c # r)))"

definition lower_char :: "char \<Rightarrow> char" where
  "lower_char c =
     (case map_of (zip ''ABCDEFGHIJKLMNOPQRSTUVWXYZ'' ''abcdefghijklmnopqrstuvwxyz'') c of
        None \<Rightarrow> c
      | Some l \<Rightarrow> l)"

definition lower :: "string \<Rightarrow> string" where
  \<comment> \<open>\<^verbatim>\<open>s.lower()\<close>\<close>
  "lower s = map lower_char s"

section \<open>The accelerator catalog and \<^verbatim>\<open>infer_gpu_memory\<close>\<close>

definition GPU_MEMORY :: "(string \<times> int) list" where
  \<comment> \<open>the dict literal, in its declaration order, which \<^verbatim>\<open>.items()\<close> follows\<close>
  "GPU_MEMORY =
     [(''a100'', 40), (''h200'', 141), (''v100'', 16), (''a5000'', 24), (''a5500'', 24),
      (''l40s'', 48), (''l40sx'', 48), (''2080ti'', 11), (''rtx2080ti'', 11),
      (''a6000'', 48), (''a40'', 48), (''rtx3090'', 24), (''rtx4090'', 24),
      (''titan'', 24)]"

fun first_match :: "(string \<times> int) list \<Rightarrow> string \<Rightarrow> int option" where
  \<comment> \<open>the \<^verbatim>\<open>for gpu_type, memory in ...items()\<close> loop; \<^verbatim>\<open>gpu_type in partition_lower\<close>
      is the test for a contiguous substring\<close>
  "first_match [] partition_lower = None"
| "first_match ((gpu_type, memory) # items) partition_lower =
     (if sublist gpu_type partition_lower then Some memory
      else first_match items partition_lower)"

definition infer_gpu_memory :: "string \<Rightarrow> int option" where
  "infer_gpu_memory partition_name = first_match GPU_MEMORY (lower partition_name)"

definition GPU_MEMORY_without_shadowed :: "(string \<times> int) list" where
  \<comment> \<open>the catalog without the two entries \<^verbatim>\<open>'l40sx'\<close> and \<^verbatim>\<open>'rtx2080ti'\<close>\<close>
  "GPU_MEMORY_without_shadowed =
     filter (\<lambda>(gpu_type, memory). gpu_type \<noteq> ''l40sx'' \<and> gpu_type \<noteq> ''rtx2080ti'') GPU_MEMORY"

definition GPU_MEMORY_with :: "int \<Rightarrow> int \<Rightarrow> (string \<times> int) list" where
  \<comment> \<open>the catalog with other values at the keys \<^verbatim>\<open>'l40sx'\<close> and \<^verbatim>\<open>'rtx2080ti'\<close>\<close>
  "GPU_MEMORY_with v w =
     map (\<lambda>(gpu_type, memory).
            if gpu_type = ''l40sx'' then (gpu_type, v)
            else if gpu_type = ''rtx2080ti'' then (gpu_type, w)
            else (gpu_type, memory)) GPU_MEMORY"

section \<open>\<^verbatim>\<open>get_detailed_partition_info\<close>: parsing and aggregating the report\<close>

datatype exn =
    ValueError string  \<comment> \<open>\<^verbatim>\<open>int(s)\<close> on a text \<open>s\<close> that is no integer\<close>
  | OSError            \<comment> \<open>\<^verbatim>\<open>subprocess.run\<close> could not launch the command\<close>

record row =
  r_name :: string
  r_allocated_nodes :: int
  r_idle_nodes :: int
  r_other_nodes :: int
  r_total_nodes :: int
  r_allocated_cpus :: int
  r_idle_cpus :: int
  r_other_cpus :: int
  r_total_cpus :: int
  r_nodes_count :: int
  r_timelimit :: string
  r_state :: string
  r_nodelist :: string

record partition =
  name :: string
  allocated_nodes :: int
  idle_nodes :: int
  other_nodes :: int
  total_nodes :: int
  allocated_cpus :: int
  idle_cpus :: int
  other_cpus :: int
  total_cpus :: int
  timelimit :: string
  states :: "string list"
  nodelists :: "string list"

datatype parsed =
    Skip       \<comment> \<open>the body of the loop does nothing for this line (\<^verbatim>\<open>continue\<close>)\<close>
  | Raise exn  \<comment> \<open>an exception leaves the loop\<close>
  | Row row

fun ints :: "string list \<Rightarrow> exn + int list" where
  \<comment> \<open>consecutive \<^verbatim>\<open>int(...)\<close> calls, left to right; the first failure raises\<close>
  "ints [] = Inr []"
| "ints (s # ss) =
     (case py_int s of
        None \<Rightarrow> Inl (ValueError s)
      | Some n \<Rightarrow> (case ints ss of Inl e \<Rightarrow> Inl e | Inr ns \<Rightarrow> Inr (n # ns)))"

definition parse_line :: "string \<Rightarrow> parsed" where
  \<comment> \<open>lines 44 to 71 of the source\<close>
  "parse_line line =
     (let parts = split_ws line in
      if 7 \<le> length parts then
        (let partition_name = filter (\<lambda>c. c \<noteq> CHR ''*'') (parts ! 0);
             node_info = split_on CHR ''/'' (parts ! 1) in
         if length node_info = 4 then
           (case ints node_info of
              Inl e \<Rightarrow> Raise e
            | Inr nodes \<Rightarrow>
               (let cpu_info = split_on CHR ''/'' (parts ! 2) in
                if length cpu_info = 4 then
                  (case ints cpu_info of
                     Inl e \<Rightarrow> Raise e
                   | Inr cpus \<Rightarrow>
                      (case py_int (parts ! 3) of
                         None \<Rightarrow> Raise (ValueError (parts ! 3))
                       | Some nodes_count \<Rightarrow>
                           Row \<lparr>r_name = partition_name,
                                r_allocated_nodes = nodes ! 0, r_idle_nodes = nodes ! 1,
                                r_other_nodes = nodes ! 2, r_total_nodes = nodes ! 3,
                                r_allocated_cpus = cpus ! 0, r_idle_cpus = cpus ! 1,
                                r_other_cpus = cpus ! 2, r_total_cpus = cpus ! 3,
                                r_nodes_count = nodes_count,
                                r_timelimit = parts ! 4, r_state = parts ! 5,
                                r_nodelist = join_blank (drop 6 parts)\<rparr>))
                else Skip))
         else Skip)
      else Skip)"

definition new_partition :: "string \<Rightarrow> string \<Rightarrow> partition" where
  \<comment> \<open>the dict literal of lines 75 to 88\<close>
  "new_partition partition_name limit =
     \<lparr>name = partition_name, allocated_nodes = 0, idle_nodes = 0, other_nodes = 0,
      total_nodes = 0, allocated_cpus = 0, idle_cpus = 0, other_cpus = 0, total_cpus = 0,
      timelimit = limit, states = [], nodelists = []\<rparr>"

definition accumulate :: "partition \<Rightarrow> row \<Rightarrow> partition" where
  \<comment> \<open>lines 90 to 99\<close>
  "accumulate p r =
     p\<lparr>allocated_nodes := allocated_nodes p + r_allocated_nodes r,
       idle_nodes := idle_nodes p + r_idle_nodes r,
       other_nodes := other_nodes p + r_other_nodes r,
       total_nodes := total_nodes p + r_total_nodes r,
       allocated_cpus := allocated_cpus p + r_allocated_cpus r,
       idle_cpus := idle_cpus p + r_idle_cpus r,
       other_cpus := other_cpus p + r_other_cpus r,
       total_cpus := total_cpus p + r_total_cpus r,
       states := states p @ [r_state r],
       nodelists := nodelists p @ [r_nodelist r]\<rparr>"

definition add_row :: "(string \<times> partition) list \<Rightarrow> row \<Rightarrow> (string \<times> partition) list" where
  \<comment> \<open>lines 74 to 99. The dict \<^verbatim>\<open>partitions\<close> is an association list in insertion
      order: a new key goes to the end, an old key keeps its place.\<close>
  "add_row partitions r =
     (let partitions1 =
            (if map_of partitions (r_name r) = None
             then AList.update (r_name r) (new_partition (r_name r) (r_timelimit r)) partitions
             else partitions)
      in (case map_of partitions1 (r_name r) of
            None \<Rightarrow> partitions1
          | Some p \<Rightarrow> AList.update (r_name r) (accumulate p r) partitions1))"

fun process_lines :: "(string \<times> partition) list \<Rightarrow> string list \<Rightarrow> exn + (string \<times> partition) list" where
  \<comment> \<open>the \<^verbatim>\<open>for line in lines[1:]\<close> loop, started on the dict built so far\<close>
  "process_lines partitions [] = Inr partitions"
| "process_lines partitions (line # lines) =
     (case parse_line line of
        Skip \<Rightarrow> process_lines partitions lines
      | Raise e \<Rightarrow> Inl e
      | Row r \<Rightarrow> process_lines (add_row partitions r) lines)"

datatype run_outcome =
    Completed int string  \<comment> \<open>\<^verbatim>\<open>returncode\<close> and \<^verbatim>\<open>stdout\<close>\<close>
  | TimeoutExpired
  | Launch_failed         \<comment> \<open>any other exception of \<^verbatim>\<open>subprocess.run\<close>\<close>

datatype info_error =
    Error_running_sinfo   \<comment> \<open>\<^verbatim>\<open>"Error running sinfo command"\<close>\<close>
  | No_sinfo_output       \<comment> \<open>\<^verbatim>\<open>"No sinfo output"\<close>\<close>
  | Sinfo_timed_out       \<comment> \<open>\<^verbatim>\<open>"sinfo command timed out"\<close>\<close>
  | Error_exception exn   \<comment> \<open>\<^verbatim>\<open>f"Error: {str(e)}"\<close>\<close>

definition partitions_of_lines :: "string list \<Rightarrow> info_error + partition list" where
  \<comment> \<open>lines 38 to 101, and the handler of line 105 for an exception of the loop\<close>
  "partitions_of_lines lines =
     (if length lines < 2 then Inl No_sinfo_output
      else (case process_lines [] (tl lines) of
              Inl e \<Rightarrow> Inl (Error_exception e)
            | Inr partitions \<Rightarrow> Inr (map snd partitions)))"

definition get_detailed_partition_info :: "run_outcome \<Rightarrow> info_error + partition list" where
  \<comment> \<open>The result of \<^verbatim>\<open>subprocess.run\<close> is the argument. The pair that the source returns
      has exactly one component that is not \<^verbatim>\<open>None\<close>: \<open>Inl\<close> is the error message,
      \<open>Inr\<close> the list of partitions.\<close>
  "get_detailed_partition_info outcome =
     (case outcome of
        TimeoutExpired \<Rightarrow> Inl Sinfo_timed_out
      | Launch_failed \<Rightarrow> Inl (Error_exception OSError)
      | Completed returncode stdout \<Rightarrow>
          if returncode \<noteq> 0 then Inl Error_running_sinfo
          else partitions_of_lines (split_on CHR 0x0A (strip stdout)))"

section \<open>Exceptions of integer and float operations\<close>

text \<open>
  Three operations of the source on integers can raise. Formatting an integer in an
  f-string raises \<^verbatim>\<open>ValueError\<close> when it has more digits than the limit. The true
  division \<^verbatim>\<open>a / b\<close> of two integers raises \<^verbatim>\<open>ZeroDivisionError\<close> for a zero
  divisor and \<^verbatim>\<open>OverflowError\<close> when the quotient, rounded to a double, is beyond the
  largest double, that is when its magnitude reaches \<open>2 ^ 1024 - 2 ^ 970\<close>. The
  conversion of an integer to a float, as in \<^verbatim>\<open>n * 0.3\<close>, raises \<^verbatim>\<open>OverflowError\<close>
  from the same bound on. Operations on floats do not raise: a product beyond the
  largest double is an infinity.

  The rounding of a real number to the nearest double is a parameter \<open>rnd\<close> of the
  functions that compute a float.
\<close>

datatype raised =
    ZeroDivisionError
  | OverflowError
  | Digits_ValueError  \<comment> \<open>the \<^verbatim>\<open>ValueError\<close> of an integer with too many digits for its text\<close>

definition str_ok :: "int \<Rightarrow> bool" where
  \<comment> \<open>\<^verbatim>\<open>str(n)\<close> returns: \<open>n\<close> has no more digits than the limit\<close>
  "str_ok n \<longleftrightarrow> \<bar>n\<bar> < 10 ^ int_max_str_digits"

fun str_error :: "int list \<Rightarrow> raised option" where
  \<comment> \<open>the exception of an f-string that formats these integers, from left to right\<close>
  "str_error [] = None"
| "str_error (n # ns) = (if str_ok n then str_error ns else Some Digits_ValueError)"

definition double_limit :: real where
  "double_limit = 2 ^ 1024 - 2 ^ 970"

definition float_error :: "int \<Rightarrow> raised option" where
  \<comment> \<open>the exception of the conversion of an integer to a float\<close>
  "float_error n = (if double_limit \<le> \<bar>real_of_int n\<bar> then Some OverflowError else None)"

definition division_error :: "int \<Rightarrow> int \<Rightarrow> raised option" where
  \<comment> \<open>the exception of \<^verbatim>\<open>a / b\<close> on two integers\<close>
  "division_error a b =
     (if b = 0 then Some ZeroDivisionError
      else if double_limit \<le> \<bar>real_of_int a / real_of_int b\<bar> then Some OverflowError
      else None)"

fun first_error :: "raised option list \<Rightarrow> raised option" where
  \<comment> \<open>the exception of a sequence of steps: the one of the first step that raises\<close>
  "first_error [] = None"
| "first_error (None # steps) = first_error steps"
| "first_error (Some e # steps) = Some e"

datatype pyfloat = Finite real | PosInf | NegInf

datatype pynum = Int_num int | Float_num pyfloat

definition to_double :: "(real \<Rightarrow> real) \<Rightarrow> real \<Rightarrow> pyfloat" where
  \<comment> \<open>the float that an operation on floats returns when its exact result is \<open>x\<close>\<close>
  "to_double rnd x =
     (if double_limit \<le> x then PosInf
      else if x \<le> - double_limit then NegInf
      else Finite (rnd x))"

definition true_divide :: "(real \<Rightarrow> real) \<Rightarrow> int \<Rightarrow> int \<Rightarrow> raised + pyfloat" where
  \<comment> \<open>\<^verbatim>\<open>a / b\<close> on two integers: the quotient rounded to a double\<close>
  "true_divide rnd a b =
     (case division_error a b of
        Some e \<Rightarrow> Inl e
      | None \<Rightarrow> Inr (Finite (rnd (real_of_int a / real_of_int b))))"

definition float_times :: "(real \<Rightarrow> real) \<Rightarrow> pyfloat \<Rightarrow> real \<Rightarrow> pyfloat" where
  \<comment> \<open>\<^verbatim>\<open>f * c\<close> for a float \<open>f\<close> and a positive double \<open>c\<close>\<close>
  "float_times rnd f c =
     (case f of
        Finite x \<Rightarrow> to_double rnd (x * c)
      | PosInf \<Rightarrow> PosInf
      | NegInf \<Rightarrow> NegInf)"

section \<open>\<^verbatim>\<open>create_progress_bar\<close>\<close>

text \<open>
  The markup that the function returns is built from the percentage, a pair of colours
  chosen by comparing the percentage with 90, 70 and 40, and the integers \<^verbatim>\<open>used\<close>,
  \<^verbatim>\<open>total\<close> and \<^verbatim>\<open>available\<close>. The comparisons and the formatting of a float do not
  raise; the formatting of the three integers can. The result here is the record of the
  colours, the percentage and \<^verbatim>\<open>available\<close>, from which the markup is printed.
\<close>

datatype colour =
    Red      \<comment> \<open>\<^verbatim>\<open>#EF5350\<close> on \<^verbatim>\<open>#FFCDD2\<close>\<close>
  | Orange   \<comment> \<open>\<^verbatim>\<open>#FFA726\<close> on \<^verbatim>\<open>#FFE0B2\<close>\<close>
  | Green    \<comment> \<open>\<^verbatim>\<open>#66BB6A\<close> on \<^verbatim>\<open>#C8E6C9\<close>\<close>

fun at_least :: "pynum \<Rightarrow> real \<Rightarrow> bool" where
  \<comment> \<open>\<^verbatim>\<open>percentage >= c\<close>\<close>
  "at_least (Int_num n) c \<longleftrightarrow> c \<le> real_of_int n"
| "at_least (Float_num (Finite x)) c \<longleftrightarrow> c \<le> x"
| "at_least (Float_num PosInf) c \<longleftrightarrow> True"
| "at_least (Float_num NegInf) c \<longleftrightarrow> False"

definition colours_of :: "pynum \<Rightarrow> colour" where
  \<comment> \<open>lines 128 to 139\<close>
  "colours_of percentage =
     (if at_least percentage 90 then Red
      else if at_least percentage 70 then Orange
      else if at_least percentage 40 then Orange
      else Green)"

record bar =
  bar_colours :: colour
  bar_percentage :: pynum
  bar_available :: int

definition create_progress_bar :: "(real \<Rightarrow> real) \<Rightarrow> int \<Rightarrow> int \<Rightarrow> raised + bar" where
  \<comment> \<open>lines 120 to 149\<close>
  "create_progress_bar rnd used total_n =
     (case (if total_n = 0 then Inr (Int_num 0)
            else (case true_divide rnd used total_n of
                    Inl e \<Rightarrow> Inl e
                  | Inr q \<Rightarrow> Inr (Float_num (float_times rnd q 100)))) of
        Inl e \<Rightarrow> Inl e
      | Inr percentage \<Rightarrow>
          (let available = total_n - used;
               colours = colours_of percentage in
           case str_error [used, total_n, available] of
             Some e \<Rightarrow> Inl e
           | None \<Rightarrow> Inr \<lparr>bar_colours = colours, bar_percentage = percentage,
                            bar_available = available\<rparr>))"

definition progress_bar_error :: "int \<Rightarrow> int \<Rightarrow> raised option" where
  \<comment> \<open>the exception of \<^verbatim>\<open>create_progress_bar(used, total)\<close>: the one of the division of
      line 123, then the one of the f-string of lines 141 to 148; it does not depend on
      the rounding\<close>
  "progress_bar_error used total_n =
     first_error
       [if total_n = 0 then None else division_error used total_n,
        str_error [used, total_n, total_n - used]]"

section \<open>\<^verbatim>\<open>get_available_resources\<close>: ranking and filtering\<close>

text \<open>
  The function builds a list of markup strings and joins them. The model keeps the
  structure of that list: one \<open>block\<close> for each run of \<^verbatim>\<open>summary.append\<close> calls, in the
  order of the appends, with the data that decide which partitions are shown and in
  which order. The markup text and the colours inside a block are not modelled. The
  exceptions that the rendering of a block raises are: the function has no handler, so
  the first of them, in the order of the source, is the outcome of the call.

  The loop of lines 171 to 208 stores three more keys in each dict. They are functions
  of keys that are never written again, so they are functions of the partition here.
\<close>

definition available_nodes :: "partition \<Rightarrow> int" where
  \<comment> \<open>line 194\<close>
  "available_nodes p = max 0 (total_nodes p - allocated_nodes p - other_nodes p)"

definition availability_score :: "partition \<Rightarrow> int" where
  \<comment> \<open>line 198\<close>
  "availability_score p = (if 0 < total_nodes p then available_nodes p else 0)"

definition gpu_memory :: "partition \<Rightarrow> int option" where
  \<comment> \<open>lines 173 and 200\<close>
  "gpu_memory p = infer_gpu_memory (name p)"

definition sort_reverse :: "('a \<Rightarrow> 'k::linorder) \<Rightarrow> 'a list \<Rightarrow> 'a list" where
  \<comment> \<open>\<^verbatim>\<open>xs.sort(key=..., reverse=True)\<close> and \<^verbatim>\<open>sorted(xs, reverse=True)\<close>: the list is
      reversed, sorted by a stable ascending sort, and reversed again\<close>
  "sort_reverse key xs = rev (sort_key key (rev xs))"

definition availability_key :: "partition \<Rightarrow> int \<times> int" where
  \<comment> \<open>the \<^verbatim>\<open>key\<close> of lines 213 and 216; pairs compare lexicographically\<close>
  "availability_key p = (availability_score p, idle_nodes p)"

definition append_to :: "int \<Rightarrow> partition \<Rightarrow> (int \<times> partition list) list \<Rightarrow> (int \<times> partition list) list" where
  \<comment> \<open>\<^verbatim>\<open>gpu_partitions[gpu_mem].append(partition)\<close> on a \<^verbatim>\<open>defaultdict(list)\<close>\<close>
  "append_to gpu_mem p gpu_partitions =
     AList.update gpu_mem
       ((case map_of gpu_partitions gpu_mem of None \<Rightarrow> [] | Some l \<Rightarrow> l) @ [p]) gpu_partitions"

fun categorize ::
  "partition list \<Rightarrow> (int \<times> partition list) list \<Rightarrow> partition list \<Rightarrow>
     (int \<times> partition list) list \<times> partition list" where
  \<comment> \<open>the loop of lines 171 to 208; \<^verbatim>\<open>if gpu_mem:\<close> is false for \<^verbatim>\<open>None\<close> and for 0\<close>
  "categorize [] gpu_partitions cpu_partitions = (gpu_partitions, cpu_partitions)"
| "categorize (p # ps) gpu_partitions cpu_partitions =
     (case gpu_memory p of
        None \<Rightarrow> categorize ps gpu_partitions (cpu_partitions @ [p])
      | Some gpu_mem \<Rightarrow>
          if gpu_mem \<noteq> 0 then categorize ps (append_to gpu_mem p gpu_partitions) cpu_partitions
          else categorize ps gpu_partitions (cpu_partitions @ [p]))"

definition filtered_partitions :: "int \<Rightarrow> int \<Rightarrow> partition list \<Rightarrow> partition list" where
  \<comment> \<open>lines 235 to 242\<close>
  "filtered_partitions min_gpu_memory gpu_mem partitions_list =
     filter (\<lambda>p. min_gpu_memory = 0 \<or>
                 min_gpu_memory \<le> gpu_mem * (total_nodes p - allocated_nodes p))
       partitions_list"

fun shown_groups ::
  "int \<Rightarrow> (int \<times> partition list) list \<Rightarrow> int list \<Rightarrow> (int \<times> nat \<times> partition list) list" where
  \<comment> \<open>the loop of lines 231 to 357 over the sorted keys: for each capacity value that
      is displayed, the value, the size of its whole list and the partitions shown\<close>
  "shown_groups min_gpu_memory gpu_partitions [] = []"
| "shown_groups min_gpu_memory gpu_partitions (gpu_mem # keys) =
     (let partitions_list = (case map_of gpu_partitions gpu_mem of None \<Rightarrow> [] | Some l \<Rightarrow> l);
          filtered = filtered_partitions min_gpu_memory gpu_mem partitions_list
      in if filtered = [] then shown_groups min_gpu_memory gpu_partitions keys
         else (gpu_mem, length partitions_list, filtered)
                # shown_groups min_gpu_memory gpu_partitions keys)"

record result =
  res_partition :: string
  res_gpu_memory :: int
  res_total_nodes :: int
  res_available_nodes :: int
  res_idle_nodes :: int
  res_allocated_nodes :: int
  res_timelimit :: string
  res_total_available_gpu_memory :: int

definition results_of :: "int \<Rightarrow> partition list \<Rightarrow> result list" where
  \<comment> \<open>lines 342 to 355, for the shown partitions of one capacity value (the key
      \<^verbatim>\<open>availability_pct\<close>, a float, is left out)\<close>
  "results_of gpu_mem filtered =
     map (\<lambda>p. \<lparr>res_partition = name p, res_gpu_memory = gpu_mem,
               res_total_nodes = total_nodes p,
               res_available_nodes = total_nodes p - allocated_nodes p,
               res_idle_nodes = idle_nodes p, res_allocated_nodes = allocated_nodes p,
               res_timelimit = timelimit p,
               res_total_available_gpu_memory = gpu_mem * (total_nodes p - allocated_nodes p)\<rparr>)
       (filter (\<lambda>p. 0 < idle_nodes p \<or> 0 < total_nodes p - allocated_nodes p) filtered)"

datatype block =
    Title                                \<comment> \<open>lines 160 to 164\<close>
  | Gpu_heading bool                     \<comment> \<open>lines 220 to 226; the flag is \<^verbatim>\<open>min_gpu_memory > 0\<close>\<close>
  | Gpu_group int nat "partition list"   \<comment> \<open>lines 268 to 357: one displayed capacity value\<close>
  | Gpu_types_shown nat nat              \<comment> \<open>lines 360 to 364\<close>
  | No_gpu_found                         \<comment> \<open>lines 367 to 373\<close>
  | Cpu_section "partition list"         \<comment> \<open>lines 376 to 435\<close>
  | Best_table "result list"             \<comment> \<open>lines 440 to 476\<close>
  | Legend                               \<comment> \<open>lines 478 to 499\<close>

definition summary_blocks :: "int \<Rightarrow> partition list \<Rightarrow> block list" where
  \<comment> \<open>lines 158 to 499: the blocks that are appended when no step raises\<close>
  "summary_blocks min_gpu_memory partitions =
     (let (gpu_unsorted, cpu_unsorted) = categorize partitions [] [];
          gpu_partitions = map (\<lambda>(gpu_mem, l). (gpu_mem, sort_reverse availability_key l)) gpu_unsorted;
          cpu_partitions = sort_reverse availability_key cpu_unsorted;
          groups = shown_groups min_gpu_memory gpu_partitions
                     (sort_reverse (\<lambda>k. k) (map fst gpu_partitions));
          filtered_results = concat (map (\<lambda>(gpu_mem, n, filtered). results_of gpu_mem filtered) groups)
      in [Title]
         @ (if gpu_partitions \<noteq> [] then
              [Gpu_heading (0 < min_gpu_memory)]
              @ map (\<lambda>(gpu_mem, n, filtered). Gpu_group gpu_mem n filtered) groups
              @ (if 0 < min_gpu_memory \<and> groups \<noteq> []
                 then [Gpu_types_shown (length groups) (length gpu_partitions)] else [])
              @ (if groups = [] \<and> 0 < min_gpu_memory then [No_gpu_found] else [])
            else [])
         @ (if cpu_partitions \<noteq> [] then [Cpu_section cpu_partitions] else [])
         @ (if 0 < min_gpu_memory \<and> filtered_results \<noteq> []
            then [Best_table (sort_reverse res_total_available_gpu_memory filtered_results)]
            else [])
         @ [Legend])"

text \<open>
  The steps of the rendering that can raise are the f-strings that format an integer,
  the product with \<^verbatim>\<open>0.3\<close> of line 261, the division of line 354 and the calls of
  \<^verbatim>\<open>create_progress_bar\<close>. The functions below give, for each part of the summary, the
  exception of its first step that raises, in the order of the source. The exception
  of a call of \<^verbatim>\<open>create_progress_bar\<close> is \<open>progress_bar_error\<close>, for every rounding.
\<close>

definition gpu_partition_error :: "int \<Rightarrow> partition \<Rightarrow> raised option" where
  \<comment> \<open>lines 280 to 355, one shown partition of a group: the f-string of lines 299 to
      308, the two progress bars, the f-string of lines 329 to 337, and the division of
      line 354\<close>
  "gpu_partition_error gpu_mem p =
     first_error
       [str_error [gpu_mem * (total_nodes p - allocated_nodes p), gpu_mem,
                   total_nodes p - allocated_nodes p],
        progress_bar_error (allocated_nodes p) (total_nodes p),
        progress_bar_error (allocated_cpus p) (total_cpus p),
        str_error [idle_nodes p, allocated_nodes p, total_cpus p,
                   idle_cpus p + (total_cpus p - allocated_cpus p - idle_cpus p - other_cpus p)],
        if 0 < idle_nodes p \<or> 0 < total_nodes p - allocated_nodes p
        then (if 0 < total_nodes p
              then division_error (total_nodes p - allocated_nodes p) (total_nodes p)
              else None)
        else None]"

definition group_error :: "int \<Rightarrow> int \<Rightarrow> nat \<Rightarrow> partition list \<Rightarrow> raised option" where
  \<comment> \<open>lines 252 to 357, one displayed capacity value: the product with \<^verbatim>\<open>0.3\<close> of line
      261, the header of lines 269 to 274, then the shown partitions in their order;
      \<open>n\<close> is \<^verbatim>\<open>len(partitions_list)\<close>\<close>
  "group_error min_gpu_memory gpu_mem n filtered =
     (let total_nodes_sum = sum_list (map total_nodes filtered);
          idle_nodes_sum = sum_list (map idle_nodes filtered);
          allocated_nodes_sum = sum_list (map allocated_nodes filtered);
          available_nodes_sum = total_nodes_sum - allocated_nodes_sum;
          total_available_gpu_memory = gpu_mem * available_nodes_sum
      in first_error
           ([float_error total_nodes_sum,
             if 0 < min_gpu_memory \<and> length filtered < n
             then str_error [gpu_mem, int (length filtered), int n,
                             total_available_gpu_memory, available_nodes_sum, idle_nodes_sum]
             else str_error [gpu_mem, total_available_gpu_memory, available_nodes_sum,
                             idle_nodes_sum, total_nodes_sum]]
            @ map (gpu_partition_error gpu_mem) filtered))"

definition cpu_partition_error :: "partition \<Rightarrow> raised option" where
  \<comment> \<open>lines 383 to 433, one compute-only partition: the two progress bars, then the
      f-string of lines 423 to 431\<close>
  "cpu_partition_error p =
     first_error
       [progress_bar_error (allocated_nodes p) (total_nodes p),
        progress_bar_error (allocated_cpus p) (total_cpus p),
        str_error [idle_nodes p, allocated_nodes p, total_cpus p, idle_cpus p]]"

definition table_row_error :: "nat \<times> result \<Rightarrow> raised option" where
  \<comment> \<open>lines 458 to 473, the row of rank \<open>i\<close>; the rank is formatted from 4 on\<close>
  "table_row_error ir =
     (case ir of (i, r) \<Rightarrow>
        str_error ((if 3 < i then [int i] else [])
                   @ [res_gpu_memory r, res_total_available_gpu_memory r, res_gpu_memory r,
                      res_available_nodes r, res_available_nodes r, res_idle_nodes r]))"

definition table_error :: "int \<Rightarrow> result list \<Rightarrow> raised option" where
  \<comment> \<open>lines 444 to 476, for the sorted rows; \<^verbatim>\<open>enumerate\<close> starts at 1\<close>
  "table_error min_gpu_memory sorted_rows =
     first_error
       (str_error [min_gpu_memory]
        # map table_row_error (zip [1 ..< Suc (length sorted_rows)] sorted_rows))"

definition summary_error :: "int \<Rightarrow> partition list \<Rightarrow> raised option" where
  \<comment> \<open>lines 158 to 499: the first exception of the rendering, block by block in the
      order of \<open>summary_blocks\<close>\<close>
  "summary_error min_gpu_memory partitions =
     (let (gpu_unsorted, cpu_unsorted) = categorize partitions [] [];
          gpu_partitions = map (\<lambda>(gpu_mem, l). (gpu_mem, sort_reverse availability_key l)) gpu_unsorted;
          cpu_partitions = sort_reverse availability_key cpu_unsorted;
          groups = shown_groups min_gpu_memory gpu_partitions
                     (sort_reverse (\<lambda>k. k) (map fst gpu_partitions));
          filtered_results = concat (map (\<lambda>(gpu_mem, n, filtered). results_of gpu_mem filtered) groups)
      in first_error
           ((if gpu_partitions \<noteq> [] then
               [if 0 < min_gpu_memory then str_error [min_gpu_memory] else None]
               @ map (\<lambda>(gpu_mem, n, filtered). group_error min_gpu_memory gpu_mem n filtered) groups
               @ [if 0 < min_gpu_memory \<and> groups \<noteq> []
                  then str_error [int (length groups), int (length gpu_partitions), min_gpu_memory]
                  else None,
                  if groups = [] \<and> 0 < min_gpu_memory then str_error [min_gpu_memory] else None]
             else [])
            @ map cpu_partition_error cpu_partitions
            @ [if 0 < min_gpu_memory \<and> filtered_results \<noteq> []
               then table_error min_gpu_memory
                      (sort_reverse res_total_available_gpu_memory filtered_results)
               else None]))"

definition resource_summary :: "int \<Rightarrow> partition list \<Rightarrow> raised + block list" where
  \<comment> \<open>lines 158 to 499: the exception, or the blocks of the summary\<close>
  "resource_summary min_gpu_memory partitions =
     (case summary_error min_gpu_memory partitions of
        Some e \<Rightarrow> Inl e
      | None \<Rightarrow> Inr (summary_blocks min_gpu_memory partitions))"

datatype view =
    Error_message info_error   \<comment> \<open>line 156\<close>
  | Summary "block list"

definition get_available_resources :: "int \<Rightarrow> run_outcome \<Rightarrow> raised + view" where
  \<comment> \<open>\<open>Inl\<close> is an exception that leaves the function, \<open>Inr\<close> what it returns\<close>
  "get_available_resources min_gpu_memory outcome =
     (case get_detailed_partition_info outcome of
        Inl error \<Rightarrow> Inr (Error_message error)
      | Inr partitions \<Rightarrow>
          (case resource_summary min_gpu_memory partitions of
             Inl e \<Rightarrow> Inl e
           | Inr blocks \<Rightarrow> Inr (Summary blocks)))"

section \<open>Notions used to state the properties\<close>

fun shown_partitions :: "block list \<Rightarrow> partition list" where
  \<comment> \<open>the partitions displayed in the sections of a summary, in display order\<close>
  "shown_partitions [] = []"
| "shown_partitions (Gpu_group g n l # bs) = l @ shown_partitions bs"
| "shown_partitions (Cpu_section l # bs) = l @ shown_partitions bs"
| "shown_partitions (b # bs) = shown_partitions bs"

fun group_values :: "block list \<Rightarrow> int list" where
  \<comment> \<open>the capacity values of the displayed groups, in display order\<close>
  "group_values [] = []"
| "group_values (Gpu_group g n l # bs) = g # group_values bs"
| "group_values (b # bs) = group_values bs"

definition is_group :: "block \<Rightarrow> bool" where
  "is_group b = (case b of Gpu_group g n l \<Rightarrow> True | _ \<Rightarrow> False)"

definition text_of_lines :: "string list \<Rightarrow> string" where
  \<comment> \<open>a report: its lines, each ended by a line feed\<close>
  "text_of_lines ls = concat (map (\<lambda>l. l @ [CHR 0x0A]) ls)"

definition rows_of :: "string list \<Rightarrow> row list" where
  \<comment> \<open>the rows that the lines yield, in order\<close>
  "rows_of ls = concat (map (\<lambda>l. case parse_line l of Row r \<Rightarrow> [r] | _ \<Rightarrow> []) ls)"

definition misshapen :: "string \<Rightarrow> bool" where
  \<comment> \<open>fewer than seven fields; or a node ratio that has not four parts; or a node ratio
      of four integers with a CPU ratio that has not four parts\<close>
  "misshapen line =
     (let parts = split_ws line in
      length parts < 7 \<or>
      length (split_on CHR ''/'' (parts ! 1)) \<noteq> 4 \<or>
      (case ints (split_on CHR ''/'' (parts ! 1)) of
         Inl e \<Rightarrow> False
       | Inr nodes \<Rightarrow> length (split_on CHR ''/'' (parts ! 2)) \<noteq> 4))"

datatype counter =
  Allocated_nodes | Idle_nodes | Other_nodes | Total_nodes |
  Allocated_cpus | Idle_cpus | Other_cpus | Total_cpus

fun count_of :: "counter \<Rightarrow> partition \<Rightarrow> int" where
  "count_of Allocated_nodes p = allocated_nodes p"
| "count_of Idle_nodes p = idle_nodes p"
| "count_of Other_nodes p = other_nodes p"
| "count_of Total_nodes p = total_nodes p"
| "count_of Allocated_cpus p = allocated_cpus p"
| "count_of Idle_cpus p = idle_cpus p"
| "count_of Other_cpus p = other_cpus p"
| "count_of Total_cpus p = total_cpus p"

fun row_count_of :: "counter \<Rightarrow> row \<Rightarrow> int" where
  "row_count_of Allocated_nodes r = r_allocated_nodes r"
| "row_count_of Idle_nodes r = r_idle_nodes r"
| "row_count_of Other_nodes r = r_other_nodes r"
| "row_count_of Total_nodes r = r_total_nodes r"
| "row_count_of Allocated_cpus r = r_allocated_cpus r"
| "row_count_of Idle_cpus r = r_idle_cpus r"
| "row_count_of Other_cpus r = r_other_cpus r"
| "row_count_of Total_cpus r = r_total_cpus r"

definition sum_for :: "counter \<Rightarrow> string \<Rightarrow> row list \<Rightarrow> int" where
  \<comment> \<open>the sum of one counter over the rows of one partition\<close>
  "sum_for c n rs = sum_list (map (row_count_of c) (filter (\<lambda>r. r_name r = n) rs))"

definition count_at :: "counter \<Rightarrow> (string \<times> partition) list \<Rightarrow> string \<Rightarrow> int" where
  \<comment> \<open>one counter of the partition stored under a key; 0 when the key is absent\<close>
  "count_at c ps n = (case map_of ps n of None \<Rightarrow> 0 | Some p \<Rightarrow> count_of c p)"

definition group_of :: "int \<Rightarrow> partition list \<Rightarrow> partition list" where
  \<comment> \<open>the partitions of one capacity value, in aggregation order\<close>
  "group_of g ps = filter (\<lambda>p. gpu_memory p = Some g \<and> g \<noteq> 0) ps"

definition compute_only :: "partition \<Rightarrow> bool" where
  \<comment> \<open>no accelerator class was inferred\<close>
  "compute_only p = (case gpu_memory p of None \<Rightarrow> True | Some g \<Rightarrow> g = 0)"

definition unit_key :: "partition \<Rightarrow> int \<times> int" where
  \<comment> \<open>the composite key in the words of the specification: available units, idle nodes\<close>
  "unit_key p = (max 0 (total_nodes p - allocated_nodes p - other_nodes p), idle_nodes p)"

definition is_cpu_section :: "block \<Rightarrow> bool" where
  "is_cpu_section b = (case b of Cpu_section l \<Rightarrow> True | _ \<Rightarrow> False)"

definition lookup :: "(int \<times> partition list) list \<Rightarrow> int \<Rightarrow> partition list" where
  \<comment> \<open>the list stored under a capacity value; empty when the key is absent\<close>
  "lookup gpu g = (case map_of gpu g of None \<Rightarrow> [] | Some l \<Rightarrow> l)"

definition sorted_gpu :: "partition list \<Rightarrow> (int \<times> partition list) list" where
  \<comment> \<open>\<^verbatim>\<open>gpu_partitions\<close> after the loops of lines 171 to 213\<close>
  "sorted_gpu ps =
     map (\<lambda>(gpu_mem, l). (gpu_mem, sort_reverse availability_key l)) (fst (categorize ps [] []))"

definition groups :: "int \<Rightarrow> partition list \<Rightarrow> (int \<times> nat \<times> partition list) list" where
  \<comment> \<open>the displayed capacity values with their shown partitions\<close>
  "groups m ps =
     shown_groups m (sorted_gpu ps) (sort_reverse (\<lambda>k. k) (map fst (sorted_gpu ps)))"

section \<open>Properties of the catalog lookup\<close>

lemma first_match_Some_iff:
  "first_match items s = Some m \<longleftrightarrow>
     (\<exists>before gpu_type after. items = before @ (gpu_type, m) # after \<and> sublist gpu_type s \<and>
        (\<forall>e \<in> set before. \<not> sublist (fst e) s))"
proof (induction items)
  case Nil
  then show ?case by simp
next
  case (Cons e items)
  obtain g v where e: "e = (g, v)" by (cases e)
  show ?case
  proof (cases "sublist g s")
    case True
    have "(\<exists>before gpu_type after. e # items = before @ (gpu_type, m) # after \<and>
             sublist gpu_type s \<and> (\<forall>e \<in> set before. \<not> sublist (fst e) s)) \<longleftrightarrow> v = m"
    proof
      assume "\<exists>before gpu_type after. e # items = before @ (gpu_type, m) # after \<and>
             sublist gpu_type s \<and> (\<forall>e \<in> set before. \<not> sublist (fst e) s)"
      then obtain before gpu_type after where
        d: "e # items = before @ (gpu_type, m) # after" and
        n: "\<forall>e \<in> set before. \<not> sublist (fst e) s" by blast
      show "v = m"
      proof (cases before)
        case Nil
        with d e show ?thesis by simp
      next
        case (Cons b bs)
        with d have "b = e" by simp
        with n Cons e True show ?thesis by simp
      qed
    next
      assume "v = m"
      then have "e # items = [] @ (g, m) # items" using e by simp
      with True show "\<exists>before gpu_type after. e # items = before @ (gpu_type, m) # after \<and>
             sublist gpu_type s \<and> (\<forall>e \<in> set before. \<not> sublist (fst e) s)"
        by (metis empty_iff list.set(1))
    qed
    with True e show ?thesis by simp
  next
    case False
    have "(\<exists>before gpu_type after. e # items = before @ (gpu_type, m) # after \<and>
             sublist gpu_type s \<and> (\<forall>e \<in> set before. \<not> sublist (fst e) s)) \<longleftrightarrow>
          (\<exists>before gpu_type after. items = before @ (gpu_type, m) # after \<and>
             sublist gpu_type s \<and> (\<forall>e \<in> set before. \<not> sublist (fst e) s))"
      (is "?L \<longleftrightarrow> ?R")
    proof
      assume ?L
      then obtain before gpu_type after where
        d: "e # items = before @ (gpu_type, m) # after" and
        s: "sublist gpu_type s" and
        n: "\<forall>e \<in> set before. \<not> sublist (fst e) s" by blast
      show ?R
      proof (cases before)
        case Nil
        with d e have "g = gpu_type" by simp
        with s False show ?thesis by simp
      next
        case (Cons b bs)
        with d have "items = bs @ (gpu_type, m) # after" by simp
        moreover from n Cons have "\<forall>e \<in> set bs. \<not> sublist (fst e) s" by simp
        ultimately show ?thesis using s by blast
      qed
    next
      assume ?R
      then obtain before gpu_type after where
        d: "items = before @ (gpu_type, m) # after" and
        s: "sublist gpu_type s" and
        n: "\<forall>e \<in> set before. \<not> sublist (fst e) s" by blast
      from d have "e # items = (e # before) @ (gpu_type, m) # after" by simp
      moreover from n False e have "\<forall>x \<in> set (e # before). \<not> sublist (fst x) s" by simp
      ultimately show ?L using s by blast
    qed
    with False e Cons.IH show ?thesis by simp
  qed
qed

lemma first_match_None_iff:
  "first_match items s = None \<longleftrightarrow> (\<forall>e \<in> set items. \<not> sublist (fst e) s)"
  by (induction items s rule: first_match.induct) auto

lemma first_match_skip:
  assumes "sublist early late" and "(early, m) \<in> set before"
  shows "first_match (before @ (late, m') # after) s = first_match (before @ after) s"
  using assms(2)
proof (induction before)
  case Nil
  then show ?case by simp
next
  case (Cons e before)
  obtain g v where e: "e = (g, v)" by (cases e)
  show ?case
  proof (cases "sublist g s")
    case True
    with e show ?thesis by simp
  next
    case False
    show ?thesis
    proof (cases "e = (early, m)")
      case True
      with e False have "\<not> sublist early s" by simp
      with assms(1) have "\<not> sublist late s"
        using sublist_order.order_trans by blast
      then have "first_match ((late, m') # after) s = first_match after s" by simp
      then have "first_match (before @ (late, m') # after) s = first_match (before @ after) s"
        by (induction before) auto
      with e False show ?thesis by simp
    next
      case False
      with Cons.prems have "(early, m) \<in> set before" by simp
      with Cons.IH e \<open>\<not> sublist g s\<close> show ?thesis by simp
    qed
  qed
qed

lemma first_match_with:
  "first_match (GPU_MEMORY_with v w) s = first_match GPU_MEMORY_without_shadowed s"
proof -
  let ?head = "[(''a100'', 40), (''h200'', 141), (''v100'', 16), (''a5000'', 24),
                (''a5500'', 24), (''l40s'', 48::int)]"
  let ?tail = "[(''a6000'', 48), (''a40'', 48), (''rtx3090'', 24), (''rtx4090'', 24),
                (''titan'', 24::int)]"
  have a: "first_match (?head @ (''l40sx'', v) # (''2080ti'', 11) # (''rtx2080ti'', w) # ?tail) s
         = first_match (?head @ (''2080ti'', 11) # (''rtx2080ti'', w) # ?tail) s"
    by (rule first_match_skip [where early = "''l40s''" and m = 48]) (simp_all add: sublist_code)
  have b: "first_match ((?head @ [(''2080ti'', 11)]) @ (''rtx2080ti'', w) # ?tail) s
         = first_match ((?head @ [(''2080ti'', 11)]) @ ?tail) s"
    by (rule first_match_skip [where early = "''2080ti''" and m = 11]) (simp_all add: sublist_code)
  have c: "GPU_MEMORY_without_shadowed = ?head @ (''2080ti'', 11) # ?tail"
    by (simp add: GPU_MEMORY_without_shadowed_def GPU_MEMORY_def)
  have d: "GPU_MEMORY_with v w = ?head @ (''l40sx'', v) # (''2080ti'', 11) # (''rtx2080ti'', w) # ?tail"
    by (simp add: GPU_MEMORY_def GPU_MEMORY_with_def)
  from a b show ?thesis unfolding c d by simp
qed

section \<open>Properties of parsing and aggregation\<close>

lemma rows_of_Cons:
  "rows_of (l # ls) = (case parse_line l of Row r \<Rightarrow> [r] | _ \<Rightarrow> []) @ rows_of ls"
  by (simp add: rows_of_def)

lemma rows_of_Nil [simp]: "rows_of [] = []"
  by (simp add: rows_of_def)

lemma process_lines_rows:
  "\<forall>l \<in> set ls. \<forall>e. parse_line l \<noteq> Raise e \<Longrightarrow>
     process_lines ps ls = Inr (foldl add_row ps (rows_of ls))"
  by (induction ls arbitrary: ps) (auto simp: rows_of_Cons split: parsed.splits)

lemma process_lines_Inr_iff:
  "(\<exists>ps'. process_lines ps ls = Inr ps') \<longleftrightarrow> (\<forall>l \<in> set ls. \<forall>e. parse_line l \<noteq> Raise e)"
  by (induction ls arbitrary: ps) (auto split: parsed.splits)

lemma map_of_add_row:
  "map_of (add_row ps r) =
     (map_of ps)(r_name r \<mapsto>
        accumulate (case map_of ps (r_name r) of
                      None \<Rightarrow> new_partition (r_name r) (r_timelimit r)
                    | Some p \<Rightarrow> p) r)"
  by (auto simp: add_row_def Let_def update_conv' split: option.splits)


lemma count_of_accumulate: "count_of c (accumulate p r) = count_of c p + row_count_of c r"
  by (cases c) (simp_all add: accumulate_def)

lemma count_of_new: "count_of c (new_partition n t) = 0"
  by (cases c) (simp_all add: new_partition_def)

lemma count_at_add_row:
  "count_at c (add_row ps r) n = count_at c ps n + (if r_name r = n then row_count_of c r else 0)"
  by (simp add: count_at_def map_of_add_row count_of_accumulate count_of_new split: option.splits)

lemma count_at_foldl:
  "count_at c (foldl add_row ps rs) n = count_at c ps n + sum_for c n rs"
  by (induction rs arbitrary: ps) (simp_all add: count_at_add_row sum_for_def)

lemma dom_add_row: "fst ` set (add_row ps r) = insert (r_name r) (fst ` set ps)"
proof -
  have "dom (map_of (add_row ps r)) = insert (r_name r) (dom (map_of ps))"
    by (simp add: map_of_add_row)
  then show ?thesis by (simp add: dom_map_of_conv_image_fst)
qed

lemma dom_foldl_add_row: "fst ` set (foldl add_row ps rs) = fst ` set ps \<union> r_name ` set rs"
  by (induction rs arbitrary: ps) (auto simp: dom_add_row)

lemma sum_for_mset: "mset rs = mset rs' \<Longrightarrow> sum_for c n rs = sum_for c n rs'"
proof -
  assume a: "mset rs = mset rs'"
  have "sum_for c n xs = sum_mset (image_mset (row_count_of c) (filter_mset (\<lambda>r. r_name r = n) (mset xs)))" for xs
    unfolding sum_for_def by (metis mset_filter mset_map sum_mset_sum_list)
  with a show ?thesis by simp
qed

lemma mset_rows_of:
  "mset (rows_of ls) = (\<Sum>l \<in># mset ls. mset (case parse_line l of Row r \<Rightarrow> [r] | _ \<Rightarrow> []))"
  by (induction ls) (simp_all add: rows_of_Cons)

lemma parse_line_Skip_iff: "parse_line line = Skip \<longleftrightarrow> misshapen line"
proof (cases "7 \<le> length (split_ws line)")
  case False
  then show ?thesis by (simp add: parse_line_def misshapen_def Let_def)
next
  case seven: True
  show ?thesis
  proof (cases "length (split_on CHR ''/'' (split_ws line ! 1)) = 4")
    case False
    with seven show ?thesis by (simp add: parse_line_def misshapen_def Let_def)
  next
    case four: True
    show ?thesis
    proof (cases "ints (split_on CHR ''/'' (split_ws line ! 1))")
      case (Inl e)
      with seven four show ?thesis by (simp add: parse_line_def misshapen_def Let_def)
    next
      case (Inr nodes)
      with seven four show ?thesis
        by (simp add: parse_line_def misshapen_def Let_def split: sum.split option.split)
    qed
  qed
qed

lemma process_lines_filter:
  "process_lines ps (filter (\<lambda>l. \<not> misshapen l) ls) = process_lines ps ls"
proof (induction ls arbitrary: ps)
  case Nil
  then show ?case by simp
next
  case (Cons l ls)
  show ?case
  proof (cases "misshapen l")
    case True
    then have "parse_line l = Skip" by (simp add: parse_line_Skip_iff)
    with True Cons show ?thesis by simp
  next
    case False
    with Cons show ?thesis by (simp split: parsed.split)
  qed
qed

lemma summary_blocks_Nil: "summary_blocks m [] = [Title, Legend]"
  by (simp add: summary_blocks_def sort_reverse_def)

lemma ints_map_Some: "map py_int ss = map Some ns \<Longrightarrow> ints ss = Inr ns"
  by (induction ss arbitrary: ns) auto

lemma length4: "map f xs = [a, b, c, d] \<Longrightarrow> length xs = 4"
proof -
  assume "map f xs = [a, b, c, d]"
  then have "length (map f xs) = length [a, b, c, d]" by simp
  then show ?thesis by simp
qed

lemma parse_line_Row:
  assumes parts: "split_ws line = p # nf # cf # cnt # tlimit # st # nl # rest"
    and n4: "length (split_on CHR ''/'' nf) = 4"
    and ni: "ints (split_on CHR ''/'' nf) = Inr [a, i, ot, t]"
    and c4: "length (split_on CHR ''/'' cf) = 4"
    and ci: "ints (split_on CHR ''/'' cf) = Inr [ca, ci, co, ct]"
    and cn: "py_int cnt = Some c"
  shows "parse_line line =
           Row \<lparr>r_name = filter (\<lambda>c. c \<noteq> CHR ''*'') p,
                r_allocated_nodes = a, r_idle_nodes = i, r_other_nodes = ot, r_total_nodes = t,
                r_allocated_cpus = ca, r_idle_cpus = ci, r_other_cpus = co, r_total_cpus = ct,
                r_nodes_count = c, r_timelimit = tlimit, r_state = st,
                r_nodelist = join_blank (nl # rest)\<rparr>"
proof -
  have l: "7 \<le> length (p # nf # cf # cnt # tlimit # st # nl # rest)" by simp
  have e: "(p # nf # cf # cnt # tlimit # st # nl # rest) ! 0 = p"
    "(p # nf # cf # cnt # tlimit # st # nl # rest) ! 1 = nf"
    "(p # nf # cf # cnt # tlimit # st # nl # rest) ! 2 = cf"
    "(p # nf # cf # cnt # tlimit # st # nl # rest) ! 3 = cnt"
    "(p # nf # cf # cnt # tlimit # st # nl # rest) ! 4 = tlimit"
    "(p # nf # cf # cnt # tlimit # st # nl # rest) ! 5 = st"
    "drop 6 (p # nf # cf # cnt # tlimit # st # nl # rest) = nl # rest"
    by simp_all
  have f: "[a, i, ot, t] ! 0 = a" "[a, i, ot, t] ! 1 = i" "[a, i, ot, t] ! 2 = ot" "[a, i, ot, t] ! 3 = t"
    "[ca, ci, co, ct] ! 0 = ca" "[ca, ci, co, ct] ! 1 = ci" "[ca, ci, co, ct] ! 2 = co" "[ca, ci, co, ct] ! 3 = ct"
    by simp_all
  show ?thesis
    unfolding parse_line_def Let_def parts
    by (simp only: l e n4 ni c4 ci cn f if_True sum.case option.case refl)
qed

lemma mset_rows_of_cong: "mset ls' = mset ls \<Longrightarrow> mset (rows_of ls') = mset (rows_of ls)"
  by (simp add: mset_rows_of)

lemma aggregate_two_rows:
  assumes "r_name r1 = n" and "r_name r2 = n"
  shows "map snd (add_row (add_row [] r1) r2) =
           [accumulate (accumulate (new_partition n (r_timelimit r1)) r1) r2]"
  using assms by (simp add: add_row_def Let_def)

section \<open>Properties of the descending sort and of the grouping by capacity\<close>

lemma set_sort_reverse: "set (sort_reverse k xs) = set xs"
  by (simp add: sort_reverse_def)

lemma mset_sort_reverse: "mset (sort_reverse k xs) = mset xs"
  by (simp add: sort_reverse_def)

lemma length_sort_reverse: "length (sort_reverse k xs) = length xs"
  by (simp add: sort_reverse_def)

lemma sorted_sort_reverse: "sorted_wrt (\<lambda>a b. k b \<le> k a) (sort_reverse k xs)"
proof -
  have "sorted (map k (sort_key k (rev xs)))"
    by (rule sorted_sort_key)
  then have "sorted_wrt (\<lambda>a b. k a \<le> k b) (sort_key k (rev xs))"
    by (simp add: sorted_wrt_map)
  then show ?thesis
    by (simp add: sort_reverse_def sorted_wrt_rev)
qed

lemma sort_reverse_stable:
  "filter (\<lambda>x. k x = v) (sort_reverse k xs) = filter (\<lambda>x. k x = v) xs"
proof -
  have "filter (\<lambda>x. k x = v) (sort_reverse k xs) =
        rev (filter (\<lambda>x. k x = v) (sort_key k (rev xs)))"
    by (simp add: sort_reverse_def rev_filter)
  also have "\<dots> = rev (filter (\<lambda>x. k x = v) (rev xs))"
    by (simp only: sort_key_stable)
  also have "\<dots> = filter (\<lambda>x. k x = v) xs"
    by (simp add: rev_filter)
  finally show ?thesis .
qed

lemma sort_reverse_Nil_iff: "sort_reverse k xs = [] \<longleftrightarrow> xs = []"
  by (metis length_sort_reverse length_0_conv)

lemma strictly_descending_keys:
  assumes "distinct xs"
  shows "sorted_wrt (\<lambda>a b. b < a) (sort_reverse (\<lambda>k. k) (xs :: int list))"
proof -
  have d: "distinct (sort_reverse (\<lambda>k. k) xs)"
    using assms by (simp add: sort_reverse_def)
  have s: "sorted_wrt (\<lambda>a b. b \<le> a) (sort_reverse (\<lambda>k. k) xs)"
    by (rule sorted_sort_reverse)
  have "sorted_wrt (\<lambda>a b. b \<le> a) ys \<Longrightarrow> distinct ys \<Longrightarrow> sorted_wrt (\<lambda>a b. b < a) ys"
    for ys :: "int list"
    by (induction ys) (auto simp: le_less)
  with s d show ?thesis by blast
qed

lemma map_of_append_to:
  "map_of (append_to g p gpu) =
     (map_of gpu)(g \<mapsto> (case map_of gpu g of None \<Rightarrow> [] | Some l \<Rightarrow> l) @ [p])"
  by (simp add: append_to_def update_conv')

lemma keys_append_to: "fst ` set (append_to g p gpu) = insert g (fst ` set gpu)"
  by (simp add: append_to_def dom_update)

lemma distinct_append_to: "distinct (map fst gpu) \<Longrightarrow> distinct (map fst (append_to g p gpu))"
  by (simp add: append_to_def distinct_update)

lemma categorize_cpu:
  "snd (categorize ps gpu cpu) = cpu @ filter compute_only ps"
  by (induction ps gpu cpu rule: categorize.induct)
     (auto simp: compute_only_def split: option.splits)

lemma categorize_distinct:
  "distinct (map fst gpu) \<Longrightarrow> distinct (map fst (fst (categorize ps gpu cpu)))"
  by (induction ps gpu cpu rule: categorize.induct)
     (auto simp: distinct_append_to split: option.splits)

lemma categorize_lookup:
  "(case map_of (fst (categorize ps gpu cpu)) g of None \<Rightarrow> [] | Some l \<Rightarrow> l) =
     (case map_of gpu g of None \<Rightarrow> [] | Some l \<Rightarrow> l) @ group_of g ps"
proof (induction ps gpu cpu rule: categorize.induct)
  case (1 gpu cpu)
  then show ?case by (simp add: group_of_def)
next
  case (2 p ps gpu cpu)
  show ?case
  proof (cases "gpu_memory p")
    case None
    with 2 show ?thesis by (simp add: group_of_def)
  next
    case (Some m)
    show ?thesis
    proof (cases "m = 0")
      case True
      with Some 2 show ?thesis by (simp add: group_of_def)
    next
      case False
      with Some 2 have "(case map_of (fst (categorize (p # ps) gpu cpu)) g of None \<Rightarrow> [] | Some l \<Rightarrow> l) =
        (case map_of (append_to m p gpu) g of None \<Rightarrow> [] | Some l \<Rightarrow> l) @ group_of g ps"
        by simp
      also have "\<dots> = (case map_of gpu g of None \<Rightarrow> [] | Some l \<Rightarrow> l) @ group_of g (p # ps)"
        using Some False by (simp add: map_of_append_to group_of_def)
      finally show ?thesis .
    qed
  qed
qed

section \<open>The structure of the summary\<close>

lemma shown_groups_set:
  "(g, n, f) \<in> set (shown_groups m gpu keys) \<Longrightarrow>
     g \<in> set keys \<and> n = length (lookup gpu g) \<and>
     f = filtered_partitions m g (lookup gpu g) \<and> f \<noteq> []"
  by (induction keys) (auto simp: Let_def lookup_def split: if_splits)

lemma shown_groups_fst:
  "map fst (shown_groups m gpu keys) =
     filter (\<lambda>g. filtered_partitions m g (lookup gpu g) \<noteq> []) keys"
  by (induction keys) (auto simp: Let_def lookup_def)

lemma shown_groups_concat:
  "concat (map (\<lambda>(g, n, f). f) (shown_groups m gpu keys)) =
     concat (map (\<lambda>g. filtered_partitions m g (lookup gpu g)) keys)"
  by (induction keys) (auto simp: Let_def lookup_def)

lemma sort_reverse_Nil [simp]: "sort_reverse k [] = []"
  by (simp add: sort_reverse_def)

lemma map_fst_sorted_gpu: "map fst (sorted_gpu ps) = map fst (fst (categorize ps [] []))"
  by (simp add: sorted_gpu_def split_def comp_def)

lemma distinct_sorted_gpu: "distinct (map fst (sorted_gpu ps))"
  unfolding map_fst_sorted_gpu by (rule categorize_distinct) simp

lemma lookup_sorted_gpu:
  "lookup (sorted_gpu ps) g = sort_reverse availability_key (group_of g ps)"
proof -
  have m: "map_of (map (\<lambda>(k, l). (k, f l)) xs) k = map_option f (map_of xs k)"
    for f :: "partition list \<Rightarrow> partition list" and xs :: "(int \<times> partition list) list" and k
    by (induction xs) auto
  have "lookup (sorted_gpu ps) g =
        sort_reverse availability_key
          (case map_of (fst (categorize ps [] [])) g of None \<Rightarrow> [] | Some l \<Rightarrow> l)"
    unfolding lookup_def sorted_gpu_def m by (simp split: option.split)
  then show ?thesis by (simp add: categorize_lookup)
qed

lemma summary_blocks_eq:
  "summary_blocks m ps =
     [Title]
     @ (if sorted_gpu ps \<noteq> [] then
          [Gpu_heading (0 < m)]
          @ map (\<lambda>(g, n, f). Gpu_group g n f) (groups m ps)
          @ (if 0 < m \<and> groups m ps \<noteq> []
             then [Gpu_types_shown (length (groups m ps)) (length (sorted_gpu ps))] else [])
          @ (if groups m ps = [] \<and> 0 < m then [No_gpu_found] else [])
        else [])
     @ (if filter compute_only ps \<noteq> []
        then [Cpu_section (sort_reverse availability_key (filter compute_only ps))] else [])
     @ (if 0 < m \<and> concat (map (\<lambda>(g, n, f). results_of g f) (groups m ps)) \<noteq> []
        then [Best_table (sort_reverse res_total_available_gpu_memory
                (concat (map (\<lambda>(g, n, f). results_of g f) (groups m ps))))]
        else [])
     @ [Legend]"
proof -
  have c: "snd (categorize ps [] []) = filter compute_only ps"
    by (simp add: categorize_cpu)
  show ?thesis
    unfolding summary_blocks_def Let_def split_def groups_def [symmetric]
      sorted_gpu_def [symmetric, unfolded split_def] c sort_reverse_Nil_iff
    by (rule refl)
qed

lemma shown_partitions_append:
  "shown_partitions (xs @ ys) = shown_partitions xs @ shown_partitions ys"
  by (induction xs rule: shown_partitions.induct) simp_all

lemma shown_partitions_groups:
  "shown_partitions (map (\<lambda>(g, n, f). Gpu_group g n f) gs) = concat (map (\<lambda>(g, n, f). f) gs)"
  by (induction gs) auto

lemma shown_partitions_summary:
  "shown_partitions (summary_blocks m ps) =
     concat (map (\<lambda>g. filtered_partitions m g (lookup (sorted_gpu ps) g))
               (sort_reverse (\<lambda>k. k) (map fst (sorted_gpu ps))))
     @ sort_reverse availability_key (filter compute_only ps)"
proof -
  have g: "sorted_gpu ps = [] \<Longrightarrow> groups m ps = []"
    by (simp add: groups_def)
  show ?thesis
    unfolding summary_blocks_eq
    using g
    by (simp add: shown_partitions_append shown_partitions_groups
        shown_groups_concat [symmetric] groups_def [symmetric])
qed







lemma group_values_append: "group_values (xs @ ys) = group_values xs @ group_values ys"
  by (induction xs rule: group_values.induct) simp_all

lemma group_values_groups:
  "group_values (map (\<lambda>(g, n, f). Gpu_group g n f) gs) = map fst gs"
  by (induction gs) auto

lemma group_values_summary: "group_values (summary_blocks m ps) = map fst (groups m ps)"
proof -
  have g: "sorted_gpu ps = [] \<Longrightarrow> groups m ps = []"
    by (simp add: groups_def)
  show ?thesis
    unfolding summary_blocks_eq using g
    by (simp add: group_values_append group_values_groups)
qed

lemma Gpu_group_summary:
  "Gpu_group g n l \<in> set (summary_blocks m ps) \<Longrightarrow> (g, n, l) \<in> set (groups m ps)"
  unfolding summary_blocks_eq by (auto split: if_splits)

lemma Cpu_section_summary:
  "Cpu_section l \<in> set (summary_blocks m ps) \<Longrightarrow>
     l = sort_reverse availability_key (filter compute_only ps)"
  unfolding summary_blocks_eq by (auto split: if_splits)

lemma summary_sections_order:
  "\<exists>before after. summary_blocks m ps = before @ after \<and>
      (\<forall>b \<in> set before. \<not> is_cpu_section b) \<and> (\<forall>b \<in> set after. \<not> is_group b)"
proof -
  let ?before = "[Title]
     @ (if sorted_gpu ps \<noteq> [] then
          [Gpu_heading (0 < m)]
          @ map (\<lambda>(g, n, f). Gpu_group g n f) (groups m ps)
          @ (if 0 < m \<and> groups m ps \<noteq> []
             then [Gpu_types_shown (length (groups m ps)) (length (sorted_gpu ps))] else [])
          @ (if groups m ps = [] \<and> 0 < m then [No_gpu_found] else [])
        else [])"
  let ?after = "(if filter compute_only ps \<noteq> []
        then [Cpu_section (sort_reverse availability_key (filter compute_only ps))] else [])
     @ (if 0 < m \<and> concat (map (\<lambda>(g, n, f). results_of g f) (groups m ps)) \<noteq> []
        then [Best_table (sort_reverse res_total_available_gpu_memory
                (concat (map (\<lambda>(g, n, f). results_of g f) (groups m ps))))]
        else [])
     @ [Legend]"
  have "summary_blocks m ps = ?before @ ?after"
    unfolding summary_blocks_eq by simp
  moreover have "\<forall>b \<in> set ?before. \<not> is_cpu_section b"
    by (auto simp: is_cpu_section_def)
  moreover have "\<forall>b \<in> set ?after. \<not> is_group b"
    by (auto simp: is_group_def)
  ultimately show ?thesis by blast
qed

lemma availability_key_unit_key:
  "0 \<le> allocated_nodes p \<Longrightarrow> 0 \<le> other_nodes p \<Longrightarrow> availability_key p = unit_key p"
  by (auto simp: availability_key_def unit_key_def availability_score_def available_nodes_def)

lemma sorted_groups_values:
  "sorted_wrt (\<lambda>a b. b < a) (map fst (groups m ps))"
proof -
  have "sorted_wrt (\<lambda>a b. b < a) (sort_reverse (\<lambda>k. k) (map fst (sorted_gpu ps)))"
    using distinct_sorted_gpu by (rule strictly_descending_keys)
  then show ?thesis
    unfolding groups_def shown_groups_fst by (rule sorted_wrt_filter)
qed

lemma group_sorted_stable:
  assumes "(g, n, l) \<in> set (groups m ps)"
  shows "sorted_wrt (\<lambda>p q. availability_key q \<le> availability_key p) l \<and>
         (\<forall>k. filter (\<lambda>p. availability_key p = k) l =
               filter (\<lambda>p. availability_key p = k) (filtered_partitions m g (group_of g ps))) \<and>
         set l \<subseteq> set ps"
proof -
  from assms have "(g, n, l) \<in> set (shown_groups m (sorted_gpu ps)
      (sort_reverse (\<lambda>k. k) (map fst (sorted_gpu ps))))"
    by (simp only: groups_def)
  then have "l = filtered_partitions m g (lookup (sorted_gpu ps) g)"
    by (rule shown_groups_set [THEN conjunct2, THEN conjunct2, THEN conjunct1])
  then have l: "l = filtered_partitions m g (sort_reverse availability_key (group_of g ps))"
    by (simp only: lookup_sorted_gpu)
  have "sorted_wrt (\<lambda>p q. availability_key q \<le> availability_key p)
          (sort_reverse availability_key (group_of g ps))"
    by (rule sorted_sort_reverse)
  then have s: "sorted_wrt (\<lambda>p q. availability_key q \<le> availability_key p) l"
    unfolding l filtered_partitions_def by (rule sorted_wrt_filter)
  have "filter (\<lambda>p. availability_key p = k) l =
        filter (\<lambda>p. availability_key p = k) (filtered_partitions m g (group_of g ps))" for k
  proof -
    have "filter (\<lambda>p. availability_key p = k) l =
          filtered_partitions m g
            (filter (\<lambda>p. availability_key p = k) (sort_reverse availability_key (group_of g ps)))"
      unfolding l filtered_partitions_def by (simp add: conj_commute)
    also have "\<dots> = filtered_partitions m g (filter (\<lambda>p. availability_key p = k) (group_of g ps))"
      by (simp only: sort_reverse_stable)
    also have "\<dots> = filter (\<lambda>p. availability_key p = k) (filtered_partitions m g (group_of g ps))"
      unfolding filtered_partitions_def by (simp add: conj_commute)
    finally show ?thesis .
  qed
  moreover have "set l \<subseteq> set ps"
    unfolding l filtered_partitions_def by (auto simp: set_sort_reverse group_of_def)
  ultimately show ?thesis using s by blast
qed

lemma categorize_keys:
  "fst ` set (fst (categorize ps gpu cpu)) = fst ` set gpu \<union> {g. group_of g ps \<noteq> []}"
proof (induction ps gpu cpu rule: categorize.induct)
  case (1 gpu cpu)
  then show ?case by (simp add: group_of_def)
next
  case (2 p ps gpu cpu)
  show ?case
  proof (cases "gpu_memory p")
    case None
    have "{g. group_of g (p # ps) \<noteq> []} = {g. group_of g ps \<noteq> []}"
      using None by (simp add: group_of_def)
    with None 2 show ?thesis by simp
  next
    case (Some m)
    show ?thesis
    proof (cases "m = 0")
      case True
      have "{g. group_of g (p # ps) \<noteq> []} = {g. group_of g ps \<noteq> []}"
        using Some True by (auto simp: group_of_def)
      with Some True 2 show ?thesis by simp
    next
      case False
      have "{g. group_of g (p # ps) \<noteq> []} = insert m {g. group_of g ps \<noteq> []}"
        using Some False by (auto simp: group_of_def)
      with Some False 2 show ?thesis by (simp add: keys_append_to)
    qed
  qed
qed

lemma keys_sorted_gpu: "fst ` set (sorted_gpu ps) = {g. group_of g ps \<noteq> []}"
proof -
  have "fst ` set (sorted_gpu ps) = set (map fst (sorted_gpu ps))"
    by simp
  also have "\<dots> = fst ` set (fst (categorize ps [] []))"
    unfolding map_fst_sorted_gpu by simp
  also have "\<dots> = {g. group_of g ps \<noteq> []}"
    using categorize_keys [of ps "[]" "[]"] by simp
  finally show ?thesis .
qed

lemma shown_partitions_iff:
  "p \<in> set (shown_partitions (summary_blocks m ps)) \<longleftrightarrow>
     p \<in> set ps \<and>
     (compute_only p \<or>
      (\<exists>g. gpu_memory p = Some g \<and> g \<noteq> 0 \<and>
           (m = 0 \<or> m \<le> g * (total_nodes p - allocated_nodes p))))"
proof -
  have in_group: "p \<in> set (filtered_partitions m g (lookup (sorted_gpu ps) g)) \<longleftrightarrow>
      p \<in> set ps \<and> gpu_memory p = Some g \<and> g \<noteq> 0 \<and>
      (m = 0 \<or> m \<le> g * (total_nodes p - allocated_nodes p))" for g
    by (auto simp: filtered_partitions_def lookup_sorted_gpu set_sort_reverse group_of_def)
  have key: "g \<in> set (sort_reverse (\<lambda>k. k) (map fst (sorted_gpu ps)))"
    if "p \<in> set ps" "gpu_memory p = Some g" "g \<noteq> 0" for g
  proof -
    from that have "p \<in> set (group_of g ps)" by (simp add: group_of_def)
    then have "group_of g ps \<noteq> []" by auto
    then show ?thesis by (simp add: set_sort_reverse keys_sorted_gpu)
  qed
  have "p \<in> set (shown_partitions (summary_blocks m ps)) \<longleftrightarrow>
      (\<exists>g \<in> set (sort_reverse (\<lambda>k. k) (map fst (sorted_gpu ps))).
          p \<in> set (filtered_partitions m g (lookup (sorted_gpu ps) g))) \<or>
      (p \<in> set ps \<and> compute_only p)"
    unfolding shown_partitions_summary by (auto simp: set_sort_reverse)
  also have "\<dots> \<longleftrightarrow> p \<in> set ps \<and>
     (compute_only p \<or>
      (\<exists>g. gpu_memory p = Some g \<and> g \<noteq> 0 \<and>
           (m = 0 \<or> m \<le> g * (total_nodes p - allocated_nodes p))))"
    unfolding in_group using key by blast
  finally show ?thesis .
qed

section \<open>Exceptions: evaluation and characterisation\<close>


lemma str_error_None_iff: "str_error ns = None \<longleftrightarrow> (\<forall>n \<in> set ns. str_ok n)"
  by (induction ns) auto

lemma str_error_Some_iff:
  "str_error ns = Some e \<longleftrightarrow> e = Digits_ValueError \<and> (\<exists>n \<in> set ns. \<not> str_ok n)"
  by (induction ns) auto

lemma one_less_double_limit: "1 < double_limit"
proof -
  have "(2::real) ^ 970 * 2 ^ 1 \<le> 2 ^ 970 * 2 ^ 54"
    by (intro mult_left_mono power_increasing) simp_all
  then have "(2::real) ^ 970 + 2 ^ 970 \<le> 2 ^ 970 * 2 ^ 54"
    by (simp only: power_one_right mult_2_right)
  also have "(2::real) ^ 970 * 2 ^ 54 = 2 ^ (970 + 54)"
    by (rule power_add [symmetric])
  also have "970 + 54 = (1024::nat)" by simp
  finally have a: "(2::real) ^ 970 + 2 ^ 970 \<le> 2 ^ 1024" .
  have b: "(1::real) < 2 ^ 970"
    by (rule one_less_power) simp_all
  from a b show ?thesis unfolding double_limit_def by linarith
qed


lemma create_progress_bar_Inl:
  "create_progress_bar rnd u t = Inl e \<longleftrightarrow> progress_bar_error u t = Some e"
  by (cases "t = 0"; cases "division_error u t"; cases "str_error [u, t, t - u]")
     (simp_all add: create_progress_bar_def progress_bar_error_def true_divide_def Let_def)

lemma create_progress_bar_Inr:
  "progress_bar_error u t = None \<Longrightarrow>
     create_progress_bar rnd u t =
       Inr \<lparr>bar_colours =
              colours_of (if t = 0 then Int_num 0
                 else Float_num (float_times rnd (Finite (rnd (real_of_int u / real_of_int t))) 100)),
            bar_percentage =
              (if t = 0 then Int_num 0
               else Float_num (float_times rnd (Finite (rnd (real_of_int u / real_of_int t))) 100)),
            bar_available = t - u\<rparr>"
  by (cases "t = 0"; cases "division_error u t"; cases "str_error [u, t, t - u]")
     (simp_all add: create_progress_bar_def progress_bar_error_def true_divide_def Let_def)

lemma progress_bar_error_cases:
  "progress_bar_error u t =
     (if t \<noteq> 0 \<and> double_limit \<le> \<bar>real_of_int u / real_of_int t\<bar> then Some OverflowError
      else if str_ok u \<and> str_ok t \<and> str_ok (t - u) then None
      else Some Digits_ValueError)"
  by (simp add: progress_bar_error_def division_error_def)


lemma double_limit_of_int: "double_limit = real_of_int (2 ^ 1024 - 2 ^ 970)"
  unfolding double_limit_def by simp

lemma small_below_int_limit: "(1000000000000000000::int) < 2 ^ 1024 - 2 ^ 970"
proof -
  have "(2::int) ^ 970 * 2 ^ 1 \<le> 2 ^ 970 * 2 ^ 54"
    by (intro mult_left_mono power_increasing) simp_all
  then have "(2::int) ^ 970 + 2 ^ 970 \<le> 2 ^ 970 * 2 ^ 54"
    by (simp only: power_one_right mult_2_right)
  also have "(2::int) ^ 970 * 2 ^ 54 = 2 ^ (970 + 54)"
    by (rule power_add [symmetric])
  also have "970 + 54 = (1024::nat)" by simp
  finally have a: "(2::int) ^ 970 + 2 ^ 970 \<le> 2 ^ 1024" .
  have "(1000000000000000000::int) < 2 ^ 64" by simp
  also have "(2::int) ^ 64 \<le> 2 ^ 970" by (rule power_increasing) simp_all
  finally show ?thesis using a by linarith
qed

lemma float_error_int:
  "float_error n = (if 2 ^ 1024 - 2 ^ 970 \<le> \<bar>n\<bar> then Some OverflowError else None)"
proof -
  have "double_limit \<le> \<bar>real_of_int n\<bar> \<longleftrightarrow> 2 ^ 1024 - 2 ^ 970 \<le> \<bar>n\<bar>"
    unfolding double_limit_of_int of_int_abs [symmetric] by (rule of_int_le_iff)
  then show ?thesis unfolding float_error_def by simp
qed

lemma float_error_code [code]:
  "float_error n =
     (if \<bar>n\<bar> < 1000000000000000000 then None
      else if 2 ^ 1024 - 2 ^ 970 \<le> \<bar>n\<bar> then Some OverflowError else None)"
  unfolding float_error_int using small_below_int_limit by simp

lemma division_error_int:
  "division_error a b =
     (if b = 0 then Some ZeroDivisionError
      else if (2 ^ 1024 - 2 ^ 970) * \<bar>b\<bar> \<le> \<bar>a\<bar> then Some OverflowError
      else None)"
proof (cases "b = 0")
  case True
  then show ?thesis by (simp add: division_error_def)
next
  case False
  then have pos: "0 < real_of_int \<bar>b\<bar>" by simp
  have "\<bar>real_of_int a / real_of_int b\<bar> = real_of_int \<bar>a\<bar> / real_of_int \<bar>b\<bar>"
    by simp
  then have "double_limit \<le> \<bar>real_of_int a / real_of_int b\<bar> \<longleftrightarrow>
        real_of_int (2 ^ 1024 - 2 ^ 970) \<le> real_of_int \<bar>a\<bar> / real_of_int \<bar>b\<bar>"
    unfolding double_limit_of_int by simp
  also have "\<dots> \<longleftrightarrow> real_of_int (2 ^ 1024 - 2 ^ 970) * real_of_int \<bar>b\<bar> \<le> real_of_int \<bar>a\<bar>"
    using pos by (rule pos_le_divide_eq)
  also have "\<dots> \<longleftrightarrow> (2 ^ 1024 - 2 ^ 970) * \<bar>b\<bar> \<le> \<bar>a\<bar>"
    unfolding of_int_mult [symmetric] by (rule of_int_le_iff)
  finally show ?thesis using False unfolding division_error_def by simp
qed

lemma division_error_code [code]:
  "division_error a b =
     (if b = 0 then Some ZeroDivisionError
      else if \<bar>a\<bar> < 1000000000000000000 then None
      else if (2 ^ 1024 - 2 ^ 970) * \<bar>b\<bar> \<le> \<bar>a\<bar> then Some OverflowError
      else None)"
proof -
  have "\<not> (2 ^ 1024 - 2 ^ 970) * \<bar>b\<bar> \<le> \<bar>a\<bar>"
    if b: "b \<noteq> 0" and a: "\<bar>a\<bar> < 1000000000000000000"
  proof -
    from b have "1 \<le> \<bar>b\<bar>" by simp
    then have "(2 ^ 1024 - 2 ^ 970) * 1 \<le> (2 ^ 1024 - 2 ^ 970) * \<bar>b\<bar>"
      using small_below_int_limit by (intro mult_left_mono) simp_all
    with a small_below_int_limit show ?thesis by simp
  qed
  then show ?thesis unfolding division_error_int by auto
qed

lemma below_str_limit: "n < 10 ^ 400 \<Longrightarrow> n < (10::int) ^ int_max_str_digits"
proof -
  assume "n < 10 ^ 400"
  also have "(10::int) ^ 400 \<le> 10 ^ int_max_str_digits"
    by (rule power_increasing) (simp_all add: int_max_str_digits_def)
  finally show ?thesis .
qed

lemma small_below_str_limit: "n < 1000000000000000000 \<Longrightarrow> n < (10::int) ^ int_max_str_digits"
proof -
  assume "n < 1000000000000000000"
  also have "(1000000000000000000::int) = 10 ^ 18" by simp
  also have "(10::int) ^ 18 \<le> 10 ^ int_max_str_digits"
    by (rule power_increasing) (simp_all add: int_max_str_digits_def)
  finally show ?thesis .
qed

lemma str_ok_code [code]:
  "str_ok n =
     (if \<bar>n\<bar> < 1000000000000000000 then True
      else if \<bar>n\<bar> < 10 ^ 400 then True
      else \<bar>n\<bar> < 10 ^ int_max_str_digits)"
  unfolding str_ok_def using below_str_limit [of "\<bar>n\<bar>"] small_below_str_limit [of "\<bar>n\<bar>"]
  by auto

lemma below_double_limit: "x < 2 ^ 970 \<Longrightarrow> x < double_limit"
proof -
  assume x: "x < 2 ^ 970"
  have "(2::real) ^ 970 * 2 ^ 1 \<le> 2 ^ 970 * 2 ^ 54"
    by (intro mult_left_mono power_increasing) simp_all
  then have "(2::real) ^ 970 + 2 ^ 970 \<le> 2 ^ 970 * 2 ^ 54"
    by (simp only: power_one_right mult_2_right)
  also have "(2::real) ^ 970 * 2 ^ 54 = 2 ^ (970 + 54)"
    by (rule power_add [symmetric])
  also have "970 + 54 = (1024::nat)" by simp
  finally have "(2::real) ^ 970 + 2 ^ 970 \<le> 2 ^ 1024" .
  with x show ?thesis unfolding double_limit_def by linarith
qed

lemma summary_error_Nil: "summary_error m [] = None"
  by (simp add: summary_error_def)

lemma resource_summary_Nil: "resource_summary m [] = Inr [Title, Legend]"
  by (simp add: resource_summary_def summary_error_Nil summary_blocks_Nil)

lemma resource_summary_Inr:
  "resource_summary m ps = Inr bs \<Longrightarrow> bs = summary_blocks m ps"
  by (cases "summary_error m ps") (simp_all add: resource_summary_def)

section \<open>C1: the filter by total available capacity\<close>

text \<open>
  Claim C1 says that a partition is dropped exactly when its per-unit memory times its
  available units, \<^verbatim>\<open>max(0, total - allocated - other)\<close>, is below the threshold. The
  filter of lines 237 to 241 multiplies by \<^verbatim>\<open>total - allocated\<close> instead, so nodes in
  the state other count as available there, although line 194 takes them off. The
  evaluation below is a report with one A5000 partition of three nodes, two of them in
  the state other, under the threshold 48: its available units are 1 and its capacity
  is 24, yet it is shown, with a capacity of 72.
\<close>

theorem other_nodes_counted_as_available:
  "get_available_resources 48 (Completed 0 (text_of_lines
     [''PARTITION NODES(A/I/O/T) CPUS(A/I/O/T) NODES TIMELIMIT STATE NODELIST'',
      ''gpu-a5000 0/1/2/3 0/8/16/24 3 1-00:00:00 mixed node[1-3]''])) =
   Inr (Summary
     [Title, Gpu_heading True,
      Gpu_group 24 1
        [\<lparr>name = ''gpu-a5000'', allocated_nodes = 0, idle_nodes = 1, other_nodes = 2,
          total_nodes = 3, allocated_cpus = 0, idle_cpus = 8, other_cpus = 16,
          total_cpus = 24, timelimit = ''1-00:00:00'', states = [''mixed''],
          nodelists = [''node[1-3]'']\<rparr>],
      Gpu_types_shown 1 1,
      Best_table
        [\<lparr>res_partition = ''gpu-a5000'', res_gpu_memory = 24, res_total_nodes = 3,
          res_available_nodes = 3, res_idle_nodes = 1, res_allocated_nodes = 0,
          res_timelimit = ''1-00:00:00'', res_total_available_gpu_memory = 72\<rparr>],
      Legend]) \<and>
   available_nodes
     \<lparr>name = ''gpu-a5000'', allocated_nodes = 0, idle_nodes = 1, other_nodes = 2,
      total_nodes = 3, allocated_cpus = 0, idle_cpus = 8, other_cpus = 16,
      total_cpus = 24, timelimit = ''1-00:00:00'', states = [''mixed''],
      nodelists = [''node[1-3]'']\<rparr> = 1 \<and>
   gpu_memory
     \<lparr>name = ''gpu-a5000'', allocated_nodes = 0, idle_nodes = 1, other_nodes = 2,
      total_nodes = 3, allocated_cpus = 0, idle_cpus = 8, other_cpus = 16,
      total_cpus = 24, timelimit = ''1-00:00:00'', states = [''mixed''],
      nodelists = [''node[1-3]'']\<rparr> = Some 24 \<and>
   (24::int) * 1 < 48"
  by code_simp

section \<open>C2: rows that are skipped\<close>

text \<open>
  Claim C2, as amended. A line with fewer than seven fields, or whose node ratio does
  not split into exactly four parts at \<^verbatim>\<open>/\<close>, or whose node ratio is four integers
  while its CPU ratio does not split into exactly four parts, is skipped: the loop
  goes on with the remaining lines, and the result is the one of the report without
  such lines. The first line is never parsed: the result does not depend on it.
\<close>

theorem misshapen_rows_skipped:
  "(misshapen l \<longrightarrow> process_lines ps (l # ls) = process_lines ps ls) \<and>
   process_lines ps ls = process_lines ps (filter (\<lambda>l. \<not> misshapen l) ls) \<and>
   partitions_of_lines (header # ls) =
     (if ls = [] then Inl No_sinfo_output
      else (case process_lines [] (filter (\<lambda>l. \<not> misshapen l) ls) of
              Inl e \<Rightarrow> Inl (Error_exception e)
            | Inr partitions \<Rightarrow> Inr (map snd partitions)))"
proof -
  have a: "misshapen l \<longrightarrow> process_lines ps (l # ls) = process_lines ps ls"
    by (simp add: parse_line_Skip_iff [symmetric])
  have b: "process_lines ps ls = process_lines ps (filter (\<lambda>l. \<not> misshapen l) ls)"
    by (simp add: process_lines_filter)
  have c: "length (header # ls) < 2 \<longleftrightarrow> ls = []"
    by (cases ls) simp_all
  have d: "partitions_of_lines (header # ls) =
     (if ls = [] then Inl No_sinfo_output
      else (case process_lines [] (filter (\<lambda>l. \<not> misshapen l) ls) of
              Inl e \<Rightarrow> Inl (Error_exception e)
            | Inr partitions \<Rightarrow> Inr (map snd partitions)))"
    unfolding partitions_of_lines_def c process_lines_filter by simp
  from a b d show ?thesis by blast
qed

theorem misshapen_rows_skipped_witness:
  "misshapen ''p 3/1/0 16/8/0/24 3 1-00:00:00 mixed node[1-3]'' \<and>
   partitions_of_lines
     [''PARTITION NODES(A/I/O/T) CPUS(A/I/O/T) NODES TIMELIMIT STATE NODELIST'',
      ''p 3/1/0 16/8/0/24 3 1-00:00:00 mixed node[1-3]'',
      ''q 2/1/0/3 16/8/0/24 3 1-00:00:00 mixed node[4-6]''] =
   Inr [\<lparr>name = ''q'', allocated_nodes = 2, idle_nodes = 1, other_nodes = 0, total_nodes = 3,
         allocated_cpus = 16, idle_cpus = 8, other_cpus = 0, total_cpus = 24,
         timelimit = ''1-00:00:00'', states = [''mixed''], nodelists = [''node[4-6]'']\<rparr>]"
proof -
  let ?bad = "''p 3/1/0 16/8/0/24 3 1-00:00:00 mixed node[1-3]''"
  let ?good = "''q 2/1/0/3 16/8/0/24 3 1-00:00:00 mixed node[4-6]''"
  have a: "misshapen ?bad"
    by code_simp
  have b: "filter (\<lambda>l. \<not> misshapen l) [?bad, ?good] = [?good]"
    by code_simp
  have c: "process_lines [] [?good] =
     Inr [(''q'', \<lparr>name = ''q'', allocated_nodes = 2, idle_nodes = 1, other_nodes = 0, total_nodes = 3,
         allocated_cpus = 16, idle_cpus = 8, other_cpus = 0, total_cpus = 24,
         timelimit = ''1-00:00:00'', states = [''mixed''], nodelists = [''node[4-6]'']\<rparr>)]"
    by code_simp
  have t: "partitions_of_lines
     (''PARTITION NODES(A/I/O/T) CPUS(A/I/O/T) NODES TIMELIMIT STATE NODELIST'' # [?bad, ?good]) =
     (if [?bad, ?good] = [] then Inl No_sinfo_output
      else (case process_lines [] (filter (\<lambda>l. \<not> misshapen l) [?bad, ?good]) of
              Inl e \<Rightarrow> Inl (Error_exception e)
            | Inr partitions \<Rightarrow> Inr (map snd partitions)))"
    using misshapen_rows_skipped [of ?bad "[]" "[?bad, ?good]"
        "''PARTITION NODES(A/I/O/T) CPUS(A/I/O/T) NODES TIMELIMIT STATE NODELIST''"]
    by blast
  show ?thesis
    unfolding t b c using a by simp
qed

theorem non_integer_row_fails_batch_counterexample:
  "get_detailed_partition_info (Completed 0 (text_of_lines
     [''PARTITION NODES(A/I/O/T) CPUS(A/I/O/T) NODES TIMELIMIT STATE NODELIST'',
      ''p 1/2/x/3 16/8/0/24 3 1-00:00:00 mixed node[1-3]'',
      ''q 2/1/0/3 16/8/0/24 3 1-00:00:00 mixed node[4-6]''])) =
     Inl (Error_exception (ValueError ''x'')) \<and>
   get_detailed_partition_info (Completed 0 (text_of_lines
     [''PARTITION NODES(A/I/O/T) CPUS(A/I/O/T) NODES TIMELIMIT STATE NODELIST'',
      ''q 2/1/0/3 16/8/0/24 3 1-00:00:00 mixed node[4-6]''])) =
     Inr [\<lparr>name = ''q'', allocated_nodes = 2, idle_nodes = 1, other_nodes = 0, total_nodes = 3,
           allocated_cpus = 16, idle_cpus = 8, other_cpus = 0, total_cpus = 24,
           timelimit = ''1-00:00:00'', states = [''mixed''], nodelists = [''node[4-6]'']\<rparr>]"
  by code_simp

section \<open>C3: a report without usable rows\<close>

text \<open>
  Claim C3, as amended. The source has no error for a report whose rows are all skipped.
  A report of fewer than two lines (after \<^verbatim>\<open>strip\<close>) returns the error
  \<^verbatim>\<open>"No sinfo output"\<close>. A report of two or more lines whose lines after the first
  are all skipped returns the empty list of partitions and no error, and the summary
  is then the title and the legend. A report of two or more lines in which no line
  raises returns the aggregate of the rows that parsed.
\<close>

theorem no_usable_rows_is_no_error:
  "(length (split_on CHR 0x0A (strip stdout)) < 2 \<longrightarrow>
      get_detailed_partition_info (Completed 0 stdout) = Inl No_sinfo_output) \<and>
   (2 \<le> length (split_on CHR 0x0A (strip stdout)) \<and>
    (\<forall>l \<in> set (tl (split_on CHR 0x0A (strip stdout))). parse_line l = Skip) \<longrightarrow>
      get_detailed_partition_info (Completed 0 stdout) = Inr [] \<and>
      get_available_resources m (Completed 0 stdout) = Inr (Summary [Title, Legend])) \<and>
   (2 \<le> length (split_on CHR 0x0A (strip stdout)) \<and>
    (\<forall>l \<in> set (tl (split_on CHR 0x0A (strip stdout))). \<forall>e. parse_line l \<noteq> Raise e) \<longrightarrow>
      get_detailed_partition_info (Completed 0 stdout) =
        Inr (map snd (foldl add_row [] (rows_of (tl (split_on CHR 0x0A (strip stdout)))))))"
proof -
  let ?lines = "split_on CHR 0x0A (strip stdout)"
  have g: "get_detailed_partition_info (Completed 0 stdout) = partitions_of_lines ?lines"
    by (simp add: get_detailed_partition_info_def)
  have a: "length ?lines < 2 \<longrightarrow> partitions_of_lines ?lines = Inl No_sinfo_output"
    by (simp add: partitions_of_lines_def)
  have c: "partitions_of_lines ?lines = Inr (map snd (foldl add_row [] (rows_of (tl ?lines))))"
    if "2 \<le> length ?lines" and "\<forall>l \<in> set (tl ?lines). \<forall>e. parse_line l \<noteq> Raise e"
    using that by (simp add: partitions_of_lines_def process_lines_rows)
  have b: "partitions_of_lines ?lines = Inr []"
    if two: "2 \<le> length ?lines" and skip: "\<forall>l \<in> set (tl ?lines). parse_line l = Skip"
  proof -
    have "rows_of ls = []" if "\<forall>l \<in> set ls. parse_line l = Skip" for ls
      using that by (induction ls) (simp_all add: rows_of_Cons)
    with skip have "rows_of (tl ?lines) = []" by blast
    moreover from skip have "\<forall>l \<in> set (tl ?lines). \<forall>e. parse_line l \<noteq> Raise e" by simp
    ultimately show ?thesis using c [OF two] by simp
  qed
  have d: "get_available_resources m (Completed 0 stdout) = Inr (Summary [Title, Legend])"
    if "partitions_of_lines ?lines = Inr []"
    using that g by (simp add: get_available_resources_def resource_summary_Nil)
  from a b c d show ?thesis unfolding g by blast
qed

theorem no_usable_rows_is_no_error_witness:
  "get_detailed_partition_info (Completed 0 ''HEADER'') = Inl No_sinfo_output \<and>
   get_detailed_partition_info (Completed 0 (text_of_lines
     [''HEADER'', ''p 3/1/0 16/8/0/24 3 1-00:00:00 mixed node[1-3]'', ''too short''])) = Inr [] \<and>
   get_available_resources 48 (Completed 0 (text_of_lines
     [''HEADER'', ''p 3/1/0 16/8/0/24 3 1-00:00:00 mixed node[1-3]'', ''too short''])) =
     Inr (Summary [Title, Legend]) \<and>
   get_detailed_partition_info (Completed 0 (text_of_lines
     [''HEADER'', ''p 3/1/0 16/8/0/24 3 1-00:00:00 mixed node[1-3]'',
      ''q* 2/1/0/3 16/8/0/24 3 1-00:00:00 mixed node[4-6]''])) =
     Inr [\<lparr>name = ''q'', allocated_nodes = 2, idle_nodes = 1, other_nodes = 0, total_nodes = 3,
           allocated_cpus = 16, idle_cpus = 8, other_cpus = 0, total_cpus = 24,
           timelimit = ''1-00:00:00'', states = [''mixed''], nodelists = [''node[4-6]'']\<rparr>]"
proof -
  let ?t1 = "''HEADER''"
  let ?t2 = "text_of_lines
     [''HEADER'', ''p 3/1/0 16/8/0/24 3 1-00:00:00 mixed node[1-3]'', ''too short'']"
  let ?t3 = "text_of_lines
     [''HEADER'', ''p 3/1/0 16/8/0/24 3 1-00:00:00 mixed node[1-3]'',
      ''q* 2/1/0/3 16/8/0/24 3 1-00:00:00 mixed node[4-6]'']"
  have a: "length (split_on CHR 0x0A (strip ?t1)) < 2"
    by code_simp
  have b: "2 \<le> length (split_on CHR 0x0A (strip ?t2)) \<and>
    (\<forall>l \<in> set (tl (split_on CHR 0x0A (strip ?t2))). parse_line l = Skip)"
    by code_simp
  have c: "2 \<le> length (split_on CHR 0x0A (strip ?t3))"
    by code_simp
  have c': "list_all (\<lambda>l. case parse_line l of Raise e \<Rightarrow> False | _ \<Rightarrow> True)
              (tl (split_on CHR 0x0A (strip ?t3)))"
    by code_simp
  have c'': "\<forall>l \<in> set (tl (split_on CHR 0x0A (strip ?t3))). \<forall>e. parse_line l \<noteq> Raise e"
    using c' unfolding list_all_iff by (auto split: parsed.splits)
  have d: "map snd (foldl add_row [] (rows_of (tl (split_on CHR 0x0A (strip ?t3))))) =
     [\<lparr>name = ''q'', allocated_nodes = 2, idle_nodes = 1, other_nodes = 0, total_nodes = 3,
           allocated_cpus = 16, idle_cpus = 8, other_cpus = 0, total_cpus = 24,
           timelimit = ''1-00:00:00'', states = [''mixed''], nodelists = [''node[4-6]'']\<rparr>]"
    by code_simp
  from a b c c'' show ?thesis
    using no_usable_rows_is_no_error [of ?t1 48]
      no_usable_rows_is_no_error [of ?t2 48]
      no_usable_rows_is_no_error [of ?t3 48]
    unfolding d by blast
qed

theorem no_malformed_report_error_counterexample:
  "get_detailed_partition_info (Completed 0 (text_of_lines
     [''PARTITION NODES(A/I/O/T) CPUS(A/I/O/T) NODES TIMELIMIT STATE NODELIST'',
      ''p 3/1/0 16/8/0/24 3 1-00:00:00 mixed node[1-3]''])) = Inr [] \<and>
   get_available_resources 0 (Completed 0 (text_of_lines
     [''PARTITION NODES(A/I/O/T) CPUS(A/I/O/T) NODES TIMELIMIT STATE NODELIST'',
      ''p 3/1/0 16/8/0/24 3 1-00:00:00 mixed node[1-3]''])) = Inr (Summary [Title, Legend])"
  by code_simp

section \<open>C4: the catalog lookup returns the first match\<close>

text \<open>
  Claim C4. \<^verbatim>\<open>infer_gpu_memory\<close> folds the name to lower case and returns the memory
  of the first entry of the catalog, in declaration order, whose key is a contiguous
  substring of the folded name; it returns \<^verbatim>\<open>None\<close> exactly when no key is a
  substring. The function is defined for every name. The name \<^verbatim>\<open>l40s_nova\<close> gives 48.
\<close>

theorem infer_gpu_memory_first_match:
  "(infer_gpu_memory n = Some m \<longleftrightarrow>
      (\<exists>before gpu_type after.
          GPU_MEMORY = before @ (gpu_type, m) # after \<and> sublist gpu_type (lower n) \<and>
          (\<forall>e \<in> set before. \<not> sublist (fst e) (lower n)))) \<and>
   (infer_gpu_memory n = None \<longleftrightarrow> (\<forall>e \<in> set GPU_MEMORY. \<not> sublist (fst e) (lower n))) \<and>
   infer_gpu_memory ''l40s_nova'' = Some 48"
proof -
  have "infer_gpu_memory ''l40s_nova'' = Some 48"
    by code_simp
  then show ?thesis
    unfolding infer_gpu_memory_def
    using first_match_Some_iff [of GPU_MEMORY "lower n" m]
      first_match_None_iff [of GPU_MEMORY "lower n"]
    by blast
qed

theorem infer_gpu_memory_first_match_witness:
  "infer_gpu_memory ''Gpu-RTX2080Ti'' = Some 11 \<and>
   (\<exists>before gpu_type after.
      GPU_MEMORY = before @ (gpu_type, 11) # after \<and>
      sublist gpu_type (lower ''Gpu-RTX2080Ti'') \<and>
      (\<forall>e \<in> set before. \<not> sublist (fst e) (lower ''Gpu-RTX2080Ti''))) \<and>
   infer_gpu_memory ''cpu-short'' = None \<and>
   \<not> (\<exists>e \<in> set GPU_MEMORY. sublist (fst e) (lower ''cpu-short''))"
proof -
  have a: "infer_gpu_memory ''Gpu-RTX2080Ti'' = Some 11"
    by code_simp
  have b: "infer_gpu_memory ''cpu-short'' = None"
    by code_simp
  from a b infer_gpu_memory_first_match [of "''Gpu-RTX2080Ti''" 11]
    infer_gpu_memory_first_match [of "''cpu-short''" 0]
  show ?thesis by blast
qed

section \<open>C5: the order of the partitions and of the groups\<close>

text \<open>
  Claim C5, as amended. The key of the sort is the pair (availability score, idle
  nodes), and the availability score of line 198 is the number of available units only
  for a partition with a positive total of nodes: for any other partition it is 0. In
  every group of a returned summary the partitions are in descending order of this
  pair, compared lexicographically, and the partitions with one and the same pair stand
  in their aggregation order: the sort is stable. The capacity values of the displayed
  groups are strictly descending. The compute-only partitions are sorted in the same
  way, and their section stands after every group of the summary. The pair is the pair
  (available units, idle nodes) of a partition exactly when its total of nodes is
  positive or it has no available unit.
\<close>

theorem ranking_order_by_score:
  assumes "resource_summary m ps = Inr bs"
  shows "(\<forall>g n l. Gpu_group g n l \<in> set bs \<longrightarrow>
            sorted_wrt (\<lambda>p q. availability_key q \<le> availability_key p) l \<and>
            (\<forall>k. filter (\<lambda>p. availability_key p = k) l =
                  filter (\<lambda>p. availability_key p = k) (filtered_partitions m g (group_of g ps)))) \<and>
         sorted_wrt (\<lambda>a b. b < a) (group_values bs) \<and>
         (\<forall>l. Cpu_section l \<in> set bs \<longrightarrow>
            sorted_wrt (\<lambda>p q. availability_key q \<le> availability_key p) l \<and>
            (\<forall>k. filter (\<lambda>p. availability_key p = k) l =
                  filter (\<lambda>p. availability_key p = k) (filter compute_only ps))) \<and>
         (\<exists>before after. bs = before @ after \<and>
            (\<forall>b \<in> set before. \<not> is_cpu_section b) \<and> (\<forall>b \<in> set after. \<not> is_group b)) \<and>
         (\<forall>p. availability_key p = unit_key p \<longleftrightarrow>
            0 < total_nodes p \<or> total_nodes p - allocated_nodes p - other_nodes p \<le> 0)"
proof -
  have bs: "bs = summary_blocks m ps"
    using assms by (rule resource_summary_Inr)
  have gpu: "sorted_wrt (\<lambda>p q. availability_key q \<le> availability_key p) l \<and>
            (\<forall>k. filter (\<lambda>p. availability_key p = k) l =
                  filter (\<lambda>p. availability_key p = k) (filtered_partitions m g (group_of g ps)))"
    if "Gpu_group g n l \<in> set (summary_blocks m ps)" for g n l
  proof -
    from that have "(g, n, l) \<in> set (groups m ps)" by (rule Gpu_group_summary)
    then show ?thesis
      using group_sorted_stable [of g n l m ps] by auto
  qed
  have vals: "sorted_wrt (\<lambda>a b. b < a) (group_values (summary_blocks m ps))"
    unfolding group_values_summary by (rule sorted_groups_values)
  have cpu: "sorted_wrt (\<lambda>p q. availability_key q \<le> availability_key p) l \<and>
            (\<forall>k. filter (\<lambda>p. availability_key p = k) l =
                  filter (\<lambda>p. availability_key p = k) (filter compute_only ps))"
    if "Cpu_section l \<in> set (summary_blocks m ps)" for l
  proof -
    from that have l: "l = sort_reverse availability_key (filter compute_only ps)"
      by (rule Cpu_section_summary)
    have "sorted_wrt (\<lambda>p q. availability_key q \<le> availability_key p) l"
      unfolding l by (rule sorted_sort_reverse)
    moreover have "filter (\<lambda>p. availability_key p = k) l =
                  filter (\<lambda>p. availability_key p = k) (filter compute_only ps)" for k
      unfolding l by (rule sort_reverse_stable)
    ultimately show ?thesis by blast
  qed
  have key: "availability_key p = unit_key p \<longleftrightarrow>
            0 < total_nodes p \<or> total_nodes p - allocated_nodes p - other_nodes p \<le> 0" for p
    by (auto simp: availability_key_def unit_key_def availability_score_def available_nodes_def)
  from gpu vals cpu key summary_sections_order [of m ps] show ?thesis unfolding bs by blast
qed

theorem ranking_order_by_score_witness:
  "resource_summary 0
      [(new_partition ''gpu-a5000-1'' ''1:00'')\<lparr>allocated_nodes := 2, idle_nodes := 2, total_nodes := 4\<rparr>,
       (new_partition ''cpu-b'' ''1:00'')\<lparr>idle_nodes := 2, total_nodes := 2\<rparr>,
       (new_partition ''gpu-l40s-1'' ''1:00'')\<lparr>idle_nodes := 3, total_nodes := 3\<rparr>,
       (new_partition ''gpu-a5000-2'' ''1:00'')\<lparr>allocated_nodes := 1, idle_nodes := 4, total_nodes := 5\<rparr>,
       (new_partition ''cpu-a'' ''1:00'')\<lparr>idle_nodes := 2, total_nodes := 2\<rparr>,
       (new_partition ''gpu-rtx3090'' ''1:00'')\<lparr>allocated_nodes := 2, idle_nodes := 2, total_nodes := 4\<rparr>] =
     Inr (summary_blocks 0
      [(new_partition ''gpu-a5000-1'' ''1:00'')\<lparr>allocated_nodes := 2, idle_nodes := 2, total_nodes := 4\<rparr>,
       (new_partition ''cpu-b'' ''1:00'')\<lparr>idle_nodes := 2, total_nodes := 2\<rparr>,
       (new_partition ''gpu-l40s-1'' ''1:00'')\<lparr>idle_nodes := 3, total_nodes := 3\<rparr>,
       (new_partition ''gpu-a5000-2'' ''1:00'')\<lparr>allocated_nodes := 1, idle_nodes := 4, total_nodes := 5\<rparr>,
       (new_partition ''cpu-a'' ''1:00'')\<lparr>idle_nodes := 2, total_nodes := 2\<rparr>,
       (new_partition ''gpu-rtx3090'' ''1:00'')\<lparr>allocated_nodes := 2, idle_nodes := 2, total_nodes := 4\<rparr>]) \<and>
   group_values (summary_blocks 0
      [(new_partition ''gpu-a5000-1'' ''1:00'')\<lparr>allocated_nodes := 2, idle_nodes := 2, total_nodes := 4\<rparr>,
       (new_partition ''cpu-b'' ''1:00'')\<lparr>idle_nodes := 2, total_nodes := 2\<rparr>,
       (new_partition ''gpu-l40s-1'' ''1:00'')\<lparr>idle_nodes := 3, total_nodes := 3\<rparr>,
       (new_partition ''gpu-a5000-2'' ''1:00'')\<lparr>allocated_nodes := 1, idle_nodes := 4, total_nodes := 5\<rparr>,
       (new_partition ''cpu-a'' ''1:00'')\<lparr>idle_nodes := 2, total_nodes := 2\<rparr>,
       (new_partition ''gpu-rtx3090'' ''1:00'')\<lparr>allocated_nodes := 2, idle_nodes := 2, total_nodes := 4\<rparr>]) = [48, 24] \<and>
   map name (shown_partitions (summary_blocks 0
      [(new_partition ''gpu-a5000-1'' ''1:00'')\<lparr>allocated_nodes := 2, idle_nodes := 2, total_nodes := 4\<rparr>,
       (new_partition ''cpu-b'' ''1:00'')\<lparr>idle_nodes := 2, total_nodes := 2\<rparr>,
       (new_partition ''gpu-l40s-1'' ''1:00'')\<lparr>idle_nodes := 3, total_nodes := 3\<rparr>,
       (new_partition ''gpu-a5000-2'' ''1:00'')\<lparr>allocated_nodes := 1, idle_nodes := 4, total_nodes := 5\<rparr>,
       (new_partition ''cpu-a'' ''1:00'')\<lparr>idle_nodes := 2, total_nodes := 2\<rparr>,
       (new_partition ''gpu-rtx3090'' ''1:00'')\<lparr>allocated_nodes := 2, idle_nodes := 2, total_nodes := 4\<rparr>])) =
     [''gpu-l40s-1'', ''gpu-a5000-2'', ''gpu-a5000-1'', ''gpu-rtx3090'', ''cpu-b'', ''cpu-a''] \<and>
   sorted_wrt (\<lambda>a b. b < a) (group_values (summary_blocks 0
      [(new_partition ''gpu-a5000-1'' ''1:00'')\<lparr>allocated_nodes := 2, idle_nodes := 2, total_nodes := 4\<rparr>,
       (new_partition ''cpu-b'' ''1:00'')\<lparr>idle_nodes := 2, total_nodes := 2\<rparr>,
       (new_partition ''gpu-l40s-1'' ''1:00'')\<lparr>idle_nodes := 3, total_nodes := 3\<rparr>,
       (new_partition ''gpu-a5000-2'' ''1:00'')\<lparr>allocated_nodes := 1, idle_nodes := 4, total_nodes := 5\<rparr>,
       (new_partition ''cpu-a'' ''1:00'')\<lparr>idle_nodes := 2, total_nodes := 2\<rparr>,
       (new_partition ''gpu-rtx3090'' ''1:00'')\<lparr>allocated_nodes := 2, idle_nodes := 2, total_nodes := 4\<rparr>])) \<and>
   (\<exists>before after. summary_blocks 0
      [(new_partition ''gpu-a5000-1'' ''1:00'')\<lparr>allocated_nodes := 2, idle_nodes := 2, total_nodes := 4\<rparr>,
       (new_partition ''cpu-b'' ''1:00'')\<lparr>idle_nodes := 2, total_nodes := 2\<rparr>,
       (new_partition ''gpu-l40s-1'' ''1:00'')\<lparr>idle_nodes := 3, total_nodes := 3\<rparr>,
       (new_partition ''gpu-a5000-2'' ''1:00'')\<lparr>allocated_nodes := 1, idle_nodes := 4, total_nodes := 5\<rparr>,
       (new_partition ''cpu-a'' ''1:00'')\<lparr>idle_nodes := 2, total_nodes := 2\<rparr>,
       (new_partition ''gpu-rtx3090'' ''1:00'')\<lparr>allocated_nodes := 2, idle_nodes := 2, total_nodes := 4\<rparr>] = before @ after \<and>
      (\<forall>b \<in> set before. \<not> is_cpu_section b) \<and> (\<forall>b \<in> set after. \<not> is_group b))"
proof -
  let ?ps = "[(new_partition ''gpu-a5000-1'' ''1:00'')\<lparr>allocated_nodes := 2, idle_nodes := 2, total_nodes := 4\<rparr>,
       (new_partition ''cpu-b'' ''1:00'')\<lparr>idle_nodes := 2, total_nodes := 2\<rparr>,
       (new_partition ''gpu-l40s-1'' ''1:00'')\<lparr>idle_nodes := 3, total_nodes := 3\<rparr>,
       (new_partition ''gpu-a5000-2'' ''1:00'')\<lparr>allocated_nodes := 1, idle_nodes := 4, total_nodes := 5\<rparr>,
       (new_partition ''cpu-a'' ''1:00'')\<lparr>idle_nodes := 2, total_nodes := 2\<rparr>,
       (new_partition ''gpu-rtx3090'' ''1:00'')\<lparr>allocated_nodes := 2, idle_nodes := 2, total_nodes := 4\<rparr>]"
  have e: "summary_error 0 ?ps = None"
    by code_simp
  have r: "resource_summary 0 ?ps = Inr (summary_blocks 0 ?ps)"
    unfolding resource_summary_def e by simp
  have a: "group_values (summary_blocks 0 ?ps) = [48, 24]"
    by code_simp
  have b: "map name (shown_partitions (summary_blocks 0 ?ps)) =
     [''gpu-l40s-1'', ''gpu-a5000-2'', ''gpu-a5000-1'', ''gpu-rtx3090'', ''cpu-b'', ''cpu-a'']"
    by code_simp
  note t = ranking_order_by_score [OF r]
  note c = t [THEN conjunct2, THEN conjunct1]
  note d = t [THEN conjunct2, THEN conjunct2, THEN conjunct2, THEN conjunct1]
  show ?thesis
    by (intro conjI, rule r, rule a, rule b, rule c, rule d)
qed

theorem not_descending_in_available_units_counterexample:
  "get_available_resources 0 (Completed 0 (text_of_lines
     [''PARTITION NODES(A/I/O/T) CPUS(A/I/O/T) NODES TIMELIMIT STATE NODELIST'',
      ''gpu-a100-a -2/0/0/0 0/0/0/0 0 1-00:00:00 down node1'',
      ''gpu-a100-b 0/1/0/1 0/8/0/8 1 1-00:00:00 idle node2''])) =
   Inr (Summary
     [Title, Gpu_heading False,
      Gpu_group 40 2
        [\<lparr>name = ''gpu-a100-b'', allocated_nodes = 0, idle_nodes = 1, other_nodes = 0,
          total_nodes = 1, allocated_cpus = 0, idle_cpus = 8, other_cpus = 0,
          total_cpus = 8, timelimit = ''1-00:00:00'', states = [''idle''],
          nodelists = [''node2'']\<rparr>,
         \<lparr>name = ''gpu-a100-a'', allocated_nodes = - 2, idle_nodes = 0, other_nodes = 0,
          total_nodes = 0, allocated_cpus = 0, idle_cpus = 0, other_cpus = 0,
          total_cpus = 0, timelimit = ''1-00:00:00'', states = [''down''],
          nodelists = [''node1'']\<rparr>],
      Legend]) \<and>
   unit_key
     \<lparr>name = ''gpu-a100-b'', allocated_nodes = 0, idle_nodes = 1, other_nodes = 0,
      total_nodes = 1, allocated_cpus = 0, idle_cpus = 8, other_cpus = 0,
      total_cpus = 8, timelimit = ''1-00:00:00'', states = [''idle''],
      nodelists = [''node2'']\<rparr> = (1, 1) \<and>
   unit_key
     \<lparr>name = ''gpu-a100-a'', allocated_nodes = - 2, idle_nodes = 0, other_nodes = 0,
      total_nodes = 0, allocated_cpus = 0, idle_cpus = 0, other_cpus = 0,
      total_cpus = 0, timelimit = ''1-00:00:00'', states = [''down''],
      nodelists = [''node1'']\<rparr> = (2, 0) \<and>
   ((1::int), (1::int)) < (2, 0)"
  by code_simp

section \<open>C6: the counters of a row are not checked against each other\<close>

text \<open>
  Claim C6, as amended. The parser does not check that allocated + idle + other equals
  total. Every line of seven or more fields whose node ratio and CPU ratio each split
  into four integers and whose node count is an integer is accepted with its counters
  as they are written, whatever their sum, and each counter is added unchanged to the
  aggregate of its partition.
\<close>

theorem rows_accepted_without_invariant:
  assumes "split_ws line = p # nf # cf # cnt # tlimit # st # nl # rest"
    and "map py_int (split_on CHR ''/'' nf) = [Some a, Some i, Some ot, Some t]"
    and "map py_int (split_on CHR ''/'' cf) = [Some ca, Some ci, Some co, Some ct]"
    and "py_int cnt = Some c"
  shows "parse_line line =
           Row \<lparr>r_name = filter (\<lambda>c. c \<noteq> CHR ''*'') p,
                r_allocated_nodes = a, r_idle_nodes = i, r_other_nodes = ot, r_total_nodes = t,
                r_allocated_cpus = ca, r_idle_cpus = ci, r_other_cpus = co, r_total_cpus = ct,
                r_nodes_count = c, r_timelimit = tlimit, r_state = st,
                r_nodelist = join_blank (nl # rest)\<rparr> \<and>
         (\<exists>ps'. process_lines ps [line] = Inr ps' \<and>
            count_at Allocated_nodes ps' (filter (\<lambda>c. c \<noteq> CHR ''*'') p) =
              count_at Allocated_nodes ps (filter (\<lambda>c. c \<noteq> CHR ''*'') p) + a \<and>
            count_at Idle_nodes ps' (filter (\<lambda>c. c \<noteq> CHR ''*'') p) =
              count_at Idle_nodes ps (filter (\<lambda>c. c \<noteq> CHR ''*'') p) + i \<and>
            count_at Other_nodes ps' (filter (\<lambda>c. c \<noteq> CHR ''*'') p) =
              count_at Other_nodes ps (filter (\<lambda>c. c \<noteq> CHR ''*'') p) + ot \<and>
            count_at Total_nodes ps' (filter (\<lambda>c. c \<noteq> CHR ''*'') p) =
              count_at Total_nodes ps (filter (\<lambda>c. c \<noteq> CHR ''*'') p) + t \<and>
            count_at Allocated_cpus ps' (filter (\<lambda>c. c \<noteq> CHR ''*'') p) =
              count_at Allocated_cpus ps (filter (\<lambda>c. c \<noteq> CHR ''*'') p) + ca \<and>
            count_at Idle_cpus ps' (filter (\<lambda>c. c \<noteq> CHR ''*'') p) =
              count_at Idle_cpus ps (filter (\<lambda>c. c \<noteq> CHR ''*'') p) + ci \<and>
            count_at Other_cpus ps' (filter (\<lambda>c. c \<noteq> CHR ''*'') p) =
              count_at Other_cpus ps (filter (\<lambda>c. c \<noteq> CHR ''*'') p) + co \<and>
            count_at Total_cpus ps' (filter (\<lambda>c. c \<noteq> CHR ''*'') p) =
              count_at Total_cpus ps (filter (\<lambda>c. c \<noteq> CHR ''*'') p) + ct)"
proof -
  define n where "n = filter (\<lambda>c. c \<noteq> CHR ''*'') p"
  define r where "r = \<lparr>r_name = n,
                r_allocated_nodes = a, r_idle_nodes = i, r_other_nodes = ot, r_total_nodes = t,
                r_allocated_cpus = ca, r_idle_cpus = ci, r_other_cpus = co, r_total_cpus = ct,
                r_nodes_count = c, r_timelimit = tlimit, r_state = st,
                r_nodelist = join_blank (nl # rest)\<rparr>"
  have n4: "length (split_on CHR ''/'' nf) = 4"
    using assms(2) by (rule length4)
  have c4: "length (split_on CHR ''/'' cf) = 4"
    using assms(3) by (rule length4)
  have ni: "ints (split_on CHR ''/'' nf) = Inr [a, i, ot, t]"
    using assms(2) ints_map_Some [of "split_on CHR ''/'' nf" "[a, i, ot, t]"] by simp
  have ci: "ints (split_on CHR ''/'' cf) = Inr [ca, ci, co, ct]"
    using assms(3) ints_map_Some [of "split_on CHR ''/'' cf" "[ca, ci, co, ct]"] by simp
  have row: "parse_line line = Row r"
    unfolding r_def n_def using assms(1) n4 ni c4 ci assms(4) by (rule parse_line_Row)
  then have run: "process_lines ps [line] = Inr (add_row ps r)"
    by simp
  have name: "r_name r = n" by (simp add: r_def)
  have cnt: "count_at k (add_row ps r) n = count_at k ps n + row_count_of k r" for k
    by (simp add: count_at_add_row name)
  have vals: "row_count_of Allocated_nodes r = a" "row_count_of Idle_nodes r = i"
    "row_count_of Other_nodes r = ot" "row_count_of Total_nodes r = t"
    "row_count_of Allocated_cpus r = ca" "row_count_of Idle_cpus r = ci"
    "row_count_of Other_cpus r = co" "row_count_of Total_cpus r = ct"
    by (simp_all add: r_def)
  have "count_at Allocated_nodes (add_row ps r) n = count_at Allocated_nodes ps n + a \<and>
        count_at Idle_nodes (add_row ps r) n = count_at Idle_nodes ps n + i \<and>
        count_at Other_nodes (add_row ps r) n = count_at Other_nodes ps n + ot \<and>
        count_at Total_nodes (add_row ps r) n = count_at Total_nodes ps n + t \<and>
        count_at Allocated_cpus (add_row ps r) n = count_at Allocated_cpus ps n + ca \<and>
        count_at Idle_cpus (add_row ps r) n = count_at Idle_cpus ps n + ci \<and>
        count_at Other_cpus (add_row ps r) n = count_at Other_cpus ps n + co \<and>
        count_at Total_cpus (add_row ps r) n = count_at Total_cpus ps n + ct"
    by (simp only: cnt vals simp_thms)
  with run have "\<exists>ps'. process_lines ps [line] = Inr ps' \<and>
        count_at Allocated_nodes ps' n = count_at Allocated_nodes ps n + a \<and>
        count_at Idle_nodes ps' n = count_at Idle_nodes ps n + i \<and>
        count_at Other_nodes ps' n = count_at Other_nodes ps n + ot \<and>
        count_at Total_nodes ps' n = count_at Total_nodes ps n + t \<and>
        count_at Allocated_cpus ps' n = count_at Allocated_cpus ps n + ca \<and>
        count_at Idle_cpus ps' n = count_at Idle_cpus ps n + ci \<and>
        count_at Other_cpus ps' n = count_at Other_cpus ps n + co \<and>
        count_at Total_cpus ps' n = count_at Total_cpus ps n + ct"
    by blast
  with row show ?thesis
    unfolding r_def n_def by blast
qed

theorem rows_accepted_without_invariant_witness:
  "parse_line ''p* 1/1/1/5 4/4/4/99 5 1-00:00:00 mixed node[1-5]'' =
     Row \<lparr>r_name = ''p'',
          r_allocated_nodes = 1, r_idle_nodes = 1, r_other_nodes = 1, r_total_nodes = 5,
          r_allocated_cpus = 4, r_idle_cpus = 4, r_other_cpus = 4, r_total_cpus = 99,
          r_nodes_count = 5, r_timelimit = ''1-00:00:00'', r_state = ''mixed'',
          r_nodelist = ''node[1-5]''\<rparr> \<and>
   (\<exists>ps'. process_lines [] [''p* 1/1/1/5 4/4/4/99 5 1-00:00:00 mixed node[1-5]''] = Inr ps' \<and>
      count_at Allocated_nodes ps' ''p'' = 1 \<and> count_at Idle_nodes ps' ''p'' = 1 \<and>
      count_at Other_nodes ps' ''p'' = 1 \<and> count_at Total_nodes ps' ''p'' = 5)"
proof -
  let ?line = "''p* 1/1/1/5 4/4/4/99 5 1-00:00:00 mixed node[1-5]''"
  have a: "split_ws ?line =
      ''p*'' # ''1/1/1/5'' # ''4/4/4/99'' # ''5'' # ''1-00:00:00'' # ''mixed'' # ''node[1-5]'' # []"
    by code_simp
  have b: "map py_int (split_on CHR ''/'' ''1/1/1/5'') = [Some 1, Some 1, Some 1, Some 5]"
    by code_simp
  have c: "map py_int (split_on CHR ''/'' ''4/4/4/99'') = [Some 4, Some 4, Some 4, Some 99]"
    by code_simp
  have d: "py_int ''5'' = Some 5"
    by code_simp
  have e: "filter (\<lambda>c. c \<noteq> CHR ''*'') ''p*'' = ''p''" "join_blank [''node[1-5]''] = ''node[1-5]''"
    by (simp_all add: join_blank_def)
  have f: "count_at k [] ''p'' = 0" for k
    by (simp add: count_at_def)
  note t = rows_accepted_without_invariant [OF a b c d, of "[]", unfolded e f add.left_neutral]
  then show ?thesis by blast
qed

theorem invariant_not_checked_counterexample:
  "get_detailed_partition_info (Completed 0 (text_of_lines
     [''PARTITION NODES(A/I/O/T) CPUS(A/I/O/T) NODES TIMELIMIT STATE NODELIST'',
      ''p 1/1/1/5 4/4/4/99 5 1-00:00:00 mixed node[1-5]''])) =
     Inr [\<lparr>name = ''p'', allocated_nodes = 1, idle_nodes = 1, other_nodes = 1, total_nodes = 5,
           allocated_cpus = 4, idle_cpus = 4, other_cpus = 4, total_cpus = 99,
           timelimit = ''1-00:00:00'', states = [''mixed''], nodelists = [''node[1-5]'']\<rparr>] \<and>
   (1::int) + 1 + 1 \<noteq> 5 \<and> (4::int) + 4 + 4 \<noteq> 99"
  by code_simp

section \<open>C7: aggregation does not depend on the order of the rows\<close>

text \<open>
  Claim C7. When the lines of a report are processed without an exception, every
  permutation of them is processed without an exception too, yields the same partition
  names, and yields for each partition the same eight counters, each the sum of that
  counter over the rows of the partition. Two rows of the partition \<^verbatim>\<open>gpu-a100-1\<close>
  with node ratios 2/1/0/3 and 1/0/0/1 aggregate to total 4, allocated 3, idle 1,
  other 0; the available units are 1, the catalog gives 40, and the total available
  capacity is 40.
\<close>

theorem aggregation_order_invariant:
  "(mset ls' = mset ls \<and> process_lines [] ls = Inr ps \<longrightarrow>
      (\<exists>ps'. process_lines [] ls' = Inr ps' \<and>
         fst ` set ps' = fst ` set ps \<and>
         (\<forall>c n. count_at c ps' n = count_at c ps n) \<and>
         (\<forall>c n. count_at c ps n = sum_for c n (rows_of ls)))) \<and>
   (r_name r1 = ''gpu-a100-1'' \<and> r_name r2 = ''gpu-a100-1'' \<and>
    r_allocated_nodes r1 = 2 \<and> r_idle_nodes r1 = 1 \<and> r_other_nodes r1 = 0 \<and> r_total_nodes r1 = 3 \<and>
    r_allocated_nodes r2 = 1 \<and> r_idle_nodes r2 = 0 \<and> r_other_nodes r2 = 0 \<and> r_total_nodes r2 = 1 \<longrightarrow>
      (\<exists>p. map snd (add_row (add_row [] r1) r2) = [p] \<and> name p = ''gpu-a100-1'' \<and>
         total_nodes p = 4 \<and> allocated_nodes p = 3 \<and> idle_nodes p = 1 \<and> other_nodes p = 0 \<and>
         available_nodes p = 1 \<and> gpu_memory p = Some 40 \<and>
         40 * available_nodes p = 40 \<and>
         filtered_partitions 40 40 [p] = [p] \<and> filtered_partitions 41 40 [p] = []))"
proof -
  have first: "\<exists>ps'. process_lines [] ls' = Inr ps' \<and>
         fst ` set ps' = fst ` set ps \<and>
         (\<forall>c n. count_at c ps' n = count_at c ps n) \<and>
         (\<forall>c n. count_at c ps n = sum_for c n (rows_of ls))"
    if perm: "mset ls' = mset ls" and run: "process_lines [] ls = Inr ps"
  proof -
    from run have ok: "\<forall>l \<in> set ls. \<forall>e. parse_line l \<noteq> Raise e"
      using process_lines_Inr_iff [of "[]" ls] by blast
    from perm have "set ls' = set ls" by (rule mset_eq_setD)
    with ok have ok': "\<forall>l \<in> set ls'. \<forall>e. parse_line l \<noteq> Raise e" by simp
    from ok run have ps: "ps = foldl add_row [] (rows_of ls)"
      by (simp add: process_lines_rows)
    from ok' have run': "process_lines [] ls' = Inr (foldl add_row [] (rows_of ls'))"
      by (rule process_lines_rows)
    from perm have rows: "mset (rows_of ls') = mset (rows_of ls)"
      by (rule mset_rows_of_cong)
    then have "set (rows_of ls') = set (rows_of ls)" by (rule mset_eq_setD)
    then have keys: "fst ` set (foldl add_row [] (rows_of ls')) = fst ` set ps"
      unfolding ps by (simp add: dom_foldl_add_row)
    have zero: "count_at c [] n = 0" for c n
      by (simp add: count_at_def)
    have sums: "count_at c ps n = sum_for c n (rows_of ls)" for c n
      unfolding ps by (simp add: count_at_foldl zero)
    have "count_at c (foldl add_row [] (rows_of ls')) n = count_at c ps n" for c n
      unfolding sums using sum_for_mset [OF rows, of c n] by (simp add: count_at_foldl zero)
    with run' keys sums show ?thesis by blast
  qed
  have second: "\<exists>p. map snd (add_row (add_row [] r1) r2) = [p] \<and> name p = ''gpu-a100-1'' \<and>
         total_nodes p = 4 \<and> allocated_nodes p = 3 \<and> idle_nodes p = 1 \<and> other_nodes p = 0 \<and>
         available_nodes p = 1 \<and> gpu_memory p = Some 40 \<and>
         40 * available_nodes p = 40 \<and>
         filtered_partitions 40 40 [p] = [p] \<and> filtered_partitions 41 40 [p] = []"
    if n: "r_name r1 = ''gpu-a100-1''" "r_name r2 = ''gpu-a100-1''"
      and v1: "r_allocated_nodes r1 = 2" "r_idle_nodes r1 = 1" "r_other_nodes r1 = 0" "r_total_nodes r1 = 3"
      and v2: "r_allocated_nodes r2 = 1" "r_idle_nodes r2 = 0" "r_other_nodes r2 = 0" "r_total_nodes r2 = 1"
  proof -
    define p where "p = accumulate (accumulate (new_partition ''gpu-a100-1'' (r_timelimit r1)) r1) r2"
    have m: "map snd (add_row (add_row [] r1) r2) = [p]"
      unfolding p_def using n by (rule aggregate_two_rows)
    have f: "name p = ''gpu-a100-1''" "total_nodes p = 4" "allocated_nodes p = 3"
      "idle_nodes p = 1" "other_nodes p = 0"
      by (simp_all add: p_def accumulate_def new_partition_def v1 v2)
    have g: "infer_gpu_memory ''gpu-a100-1'' = Some 40"
      by code_simp
    have a: "available_nodes p = 1"
      by (simp add: available_nodes_def f)
    have "gpu_memory p = Some 40"
      by (simp add: gpu_memory_def f g)
    moreover have "filtered_partitions 40 40 [p] = [p]" "filtered_partitions 41 40 [p] = []"
      by (simp_all add: filtered_partitions_def f)
    ultimately show ?thesis using m f a by simp
  qed
  from first second show ?thesis by blast
qed

theorem aggregation_order_invariant_witness:
  "(\<exists>ps'. process_lines []
            [''gpu-a100-1 1/0/0/1 8/0/0/8 1 2-00:00:00 allocated node4'',
             ''cpu 5/3/1/9 40/24/8/72 9 7-00:00:00 mixed c[1-9]'',
             ''gpu-a100-1 2/1/0/3 16/8/0/24 3 1-00:00:00 mixed node[1-3]''] = Inr ps' \<and>
      fst ` set ps' = {''gpu-a100-1'', ''cpu''} \<and>
      count_at Total_nodes ps' ''gpu-a100-1'' = 4 \<and>
      count_at Allocated_nodes ps' ''gpu-a100-1'' = 3 \<and>
      count_at Idle_nodes ps' ''gpu-a100-1'' = 1 \<and>
      count_at Total_cpus ps' ''gpu-a100-1'' = 32 \<and>
      count_at Total_cpus ps' ''cpu'' = 72) \<and>
   (\<exists>p. map snd (add_row (add_row []
           \<lparr>r_name = ''gpu-a100-1'', r_allocated_nodes = 2, r_idle_nodes = 1, r_other_nodes = 0,
            r_total_nodes = 3, r_allocated_cpus = 16, r_idle_cpus = 8, r_other_cpus = 0,
            r_total_cpus = 24, r_nodes_count = 3, r_timelimit = ''1-00:00:00'',
            r_state = ''mixed'', r_nodelist = ''node[1-3]''\<rparr>)
           \<lparr>r_name = ''gpu-a100-1'', r_allocated_nodes = 1, r_idle_nodes = 0, r_other_nodes = 0,
            r_total_nodes = 1, r_allocated_cpus = 8, r_idle_cpus = 0, r_other_cpus = 0,
            r_total_cpus = 8, r_nodes_count = 1, r_timelimit = ''2-00:00:00'',
            r_state = ''allocated'', r_nodelist = ''node4''\<rparr>) = [p] \<and>
        total_nodes p = 4 \<and> allocated_nodes p = 3 \<and> available_nodes p = 1 \<and>
        gpu_memory p = Some 40)"
proof -
  let ?l1 = "''gpu-a100-1 2/1/0/3 16/8/0/24 3 1-00:00:00 mixed node[1-3]''"
  let ?l2 = "''gpu-a100-1 1/0/0/1 8/0/0/8 1 2-00:00:00 allocated node4''"
  let ?l3 = "''cpu 5/3/1/9 40/24/8/72 9 7-00:00:00 mixed c[1-9]''"
  let ?r1 = "\<lparr>r_name = ''gpu-a100-1'', r_allocated_nodes = 2, r_idle_nodes = 1, r_other_nodes = 0,
            r_total_nodes = 3, r_allocated_cpus = 16, r_idle_cpus = 8, r_other_cpus = 0,
            r_total_cpus = 24, r_nodes_count = 3, r_timelimit = ''1-00:00:00'',
            r_state = ''mixed'', r_nodelist = ''node[1-3]''\<rparr>"
  let ?r2 = "\<lparr>r_name = ''gpu-a100-1'', r_allocated_nodes = 1, r_idle_nodes = 0, r_other_nodes = 0,
            r_total_nodes = 1, r_allocated_cpus = 8, r_idle_cpus = 0, r_other_cpus = 0,
            r_total_cpus = 8, r_nodes_count = 1, r_timelimit = ''2-00:00:00'',
            r_state = ''allocated'', r_nodelist = ''node4''\<rparr>"
  let ?ps = "[(''gpu-a100-1'',
               \<lparr>name = ''gpu-a100-1'', allocated_nodes = 3, idle_nodes = 1, other_nodes = 0,
                total_nodes = 4, allocated_cpus = 24, idle_cpus = 8, other_cpus = 0,
                total_cpus = 32, timelimit = ''1-00:00:00'', states = [''mixed'', ''allocated''],
                nodelists = [''node[1-3]'', ''node4'']\<rparr>),
              (''cpu'',
               \<lparr>name = ''cpu'', allocated_nodes = 5, idle_nodes = 3, other_nodes = 1,
                total_nodes = 9, allocated_cpus = 40, idle_cpus = 24, other_cpus = 8,
                total_cpus = 72, timelimit = ''7-00:00:00'', states = [''mixed''],
                nodelists = [''c[1-9]'']\<rparr>)]"
  have perm: "mset [?l2, ?l3, ?l1] = mset [?l1, ?l2, ?l3]"
    by (simp add: add_mset_commute)
  have run: "process_lines [] [?l1, ?l2, ?l3] = Inr ?ps"
    by code_simp
  have rows: "r_name ?r1 = ''gpu-a100-1'' \<and> r_name ?r2 = ''gpu-a100-1'' \<and>
    r_allocated_nodes ?r1 = 2 \<and> r_idle_nodes ?r1 = 1 \<and> r_other_nodes ?r1 = 0 \<and> r_total_nodes ?r1 = 3 \<and>
    r_allocated_nodes ?r2 = 1 \<and> r_idle_nodes ?r2 = 0 \<and> r_other_nodes ?r2 = 0 \<and> r_total_nodes ?r2 = 1"
    by simp
  note t = aggregation_order_invariant [of "[?l2, ?l3, ?l1]" "[?l1, ?l2, ?l3]" ?ps ?r1 ?r2]
  note t1 = t [THEN conjunct1, THEN mp, OF conjI [OF perm run]]
  from t1 obtain ps' where
    x: "process_lines [] [?l2, ?l3, ?l1] = Inr ps' \<and>
        fst ` set ps' = fst ` set ?ps \<and>
        (\<forall>c n. count_at c ps' n = count_at c ?ps n) \<and>
        (\<forall>c n. count_at c ?ps n = sum_for c n (rows_of [?l1, ?l2, ?l3]))" ..
  note r = x [THEN conjunct1]
  note k = x [THEN conjunct2, THEN conjunct1]
  note c = x [THEN conjunct2, THEN conjunct2, THEN conjunct1, rule_format]
  have keys: "fst ` set ?ps = {''gpu-a100-1'', ''cpu''}"
    by simp
  have vals: "count_at Total_nodes ?ps ''gpu-a100-1'' = 4"
    "count_at Allocated_nodes ?ps ''gpu-a100-1'' = 3"
    "count_at Idle_nodes ?ps ''gpu-a100-1'' = 1"
    "count_at Total_cpus ?ps ''gpu-a100-1'' = 32"
    "count_at Total_cpus ?ps ''cpu'' = 72"
    by (simp_all add: count_at_def)
  have one: "process_lines [] [?l2, ?l3, ?l1] = Inr ps' \<and>
      fst ` set ps' = {''gpu-a100-1'', ''cpu''} \<and>
      count_at Total_nodes ps' ''gpu-a100-1'' = 4 \<and>
      count_at Allocated_nodes ps' ''gpu-a100-1'' = 3 \<and>
      count_at Idle_nodes ps' ''gpu-a100-1'' = 1 \<and>
      count_at Total_cpus ps' ''gpu-a100-1'' = 32 \<and>
      count_at Total_cpus ps' ''cpu'' = 72"
    by (intro conjI, rule r, rule trans [OF k keys], rule trans [OF c vals(1)],
        rule trans [OF c vals(2)], rule trans [OF c vals(3)], rule trans [OF c vals(4)],
        rule trans [OF c vals(5)])
  have one': "\<exists>ps'. process_lines [] [?l2, ?l3, ?l1] = Inr ps' \<and>
      fst ` set ps' = {''gpu-a100-1'', ''cpu''} \<and>
      count_at Total_nodes ps' ''gpu-a100-1'' = 4 \<and>
      count_at Allocated_nodes ps' ''gpu-a100-1'' = 3 \<and>
      count_at Idle_nodes ps' ''gpu-a100-1'' = 1 \<and>
      count_at Total_cpus ps' ''gpu-a100-1'' = 32 \<and>
      count_at Total_cpus ps' ''cpu'' = 72"
    by (rule exI [where x = "ps'"], rule one)
  note t2 = t [THEN conjunct2, THEN mp, OF rows]
  from t2 obtain p where
    y: "map snd (add_row (add_row [] ?r1) ?r2) = [p] \<and> name p = ''gpu-a100-1'' \<and>
         total_nodes p = 4 \<and> allocated_nodes p = 3 \<and> idle_nodes p = 1 \<and> other_nodes p = 0 \<and>
         available_nodes p = 1 \<and> gpu_memory p = Some 40 \<and>
         40 * available_nodes p = 40 \<and>
         filtered_partitions 40 40 [p] = [p] \<and> filtered_partitions 41 40 [p] = []" ..
  note y2 = y [THEN conjunct2, THEN conjunct2]
  note y6 = y2 [THEN conjunct2, THEN conjunct2, THEN conjunct2, THEN conjunct2]
  have two': "map snd (add_row (add_row [] ?r1) ?r2) = [p] \<and>
        total_nodes p = 4 \<and> allocated_nodes p = 3 \<and> available_nodes p = 1 \<and>
        gpu_memory p = Some 40"
    by (intro conjI, rule y [THEN conjunct1], rule y2 [THEN conjunct1],
        rule y2 [THEN conjunct2, THEN conjunct1], rule y6 [THEN conjunct1],
        rule y6 [THEN conjunct2, THEN conjunct1])
  have two: "\<exists>p. map snd (add_row (add_row [] ?r1) ?r2) = [p] \<and>
        total_nodes p = 4 \<and> allocated_nodes p = 3 \<and> available_nodes p = 1 \<and>
        gpu_memory p = Some 40"
    by (rule exI [where x = p], rule two')
  show ?thesis by (rule conjI [OF one' two])
qed


section \<open>C8: raising the threshold never shows more\<close>




section \<open>C9: two catalog entries are never reached\<close>

text \<open>
  Claim C9. The key \<^verbatim>\<open>l40s\<close> stands before \<^verbatim>\<open>l40sx\<close> and is a substring of it, and
  \<^verbatim>\<open>2080ti\<close> stands before \<^verbatim>\<open>rtx2080ti\<close> and is a substring of it. So the lookup
  never returns through the two later entries: for every name it equals the first-match
  lookup in the catalog without them, and it does not depend on the values stored
  under them.
\<close>

theorem infer_gpu_memory_shadowed_entries:
  "infer_gpu_memory n = first_match GPU_MEMORY_without_shadowed (lower n) \<and>
   infer_gpu_memory n = first_match (GPU_MEMORY_with v w) (lower n) \<and>
   GPU_MEMORY_without_shadowed =
     [(''a100'', 40), (''h200'', 141), (''v100'', 16), (''a5000'', 24), (''a5500'', 24),
      (''l40s'', 48), (''2080ti'', 11), (''a6000'', 48), (''a40'', 48), (''rtx3090'', 24),
      (''rtx4090'', 24), (''titan'', 24)] \<and>
   sublist ''l40s'' ''l40sx'' \<and> sublist ''2080ti'' ''rtx2080ti''"
proof -
  have "GPU_MEMORY_with 48 11 = GPU_MEMORY"
    by (simp add: GPU_MEMORY_with_def GPU_MEMORY_def)
  then have "first_match GPU_MEMORY s = first_match GPU_MEMORY_without_shadowed s" for s
    using first_match_with [of 48 11 s] by simp
  then show ?thesis
    by (simp add: infer_gpu_memory_def first_match_with sublist_code
        GPU_MEMORY_without_shadowed_def GPU_MEMORY_def)
qed

section \<open>C10: the outcomes of the progress bar\<close>

text \<open>
  Claim C10, as amended. For non-negative integers \<^verbatim>\<open>used\<close> and \<^verbatim>\<open>total\<close>, and for
  every rounding of real numbers to doubles, \<^verbatim>\<open>create_progress_bar\<close> never raises
  \<^verbatim>\<open>ZeroDivisionError\<close>. It raises \<^verbatim>\<open>OverflowError\<close> exactly when \<^verbatim>\<open>total\<close> is not 0
  and the quotient \<^verbatim>\<open>used / total\<close> reaches the limit of a double. It raises
  \<^verbatim>\<open>ValueError\<close> exactly when it does not raise \<^verbatim>\<open>OverflowError\<close> and one of
  \<^verbatim>\<open>used\<close>, \<^verbatim>\<open>total\<close> and \<^verbatim>\<open>total - used\<close> has more digits than the limit of the
  conversion of an integer to text. In every other case it returns: with the integer
  percentage 0 when \<^verbatim>\<open>total\<close> is 0, and otherwise with the float product of the rounded
  quotient and 100, which is an infinity when that product reaches the limit of a
  double. In particular it returns whenever \<^verbatim>\<open>used <= total\<close> and \<^verbatim>\<open>total\<close> has no more
  digits than the limit. The evaluations after the theorem take the identity as the
  rounding: the quotients \<open>3 / 4\<close> and \<open>2 ^ 1020\<close> and the product 75 are doubles.
\<close>

theorem create_progress_bar_outcomes:
  assumes "0 \<le> used" and "0 \<le> total_n"
  shows "create_progress_bar rnd used total_n \<noteq> Inl ZeroDivisionError \<and>
         (create_progress_bar rnd used total_n = Inl OverflowError \<longleftrightarrow>
            total_n \<noteq> 0 \<and> double_limit \<le> real_of_int used / real_of_int total_n) \<and>
         (create_progress_bar rnd used total_n = Inl Digits_ValueError \<longleftrightarrow>
            \<not> (total_n \<noteq> 0 \<and> double_limit \<le> real_of_int used / real_of_int total_n) \<and>
            (10 ^ int_max_str_digits \<le> used \<or> 10 ^ int_max_str_digits \<le> total_n \<or>
             10 ^ int_max_str_digits \<le> \<bar>total_n - used\<bar>)) \<and>
         (total_n = 0 \<and> used < 10 ^ int_max_str_digits \<longrightarrow>
            create_progress_bar rnd used total_n =
              Inr \<lparr>bar_colours = Green, bar_percentage = Int_num 0,
                   bar_available = - used\<rparr>) \<and>
         (total_n \<noteq> 0 \<and> real_of_int used / real_of_int total_n < double_limit \<and>
          used < 10 ^ int_max_str_digits \<and> total_n < 10 ^ int_max_str_digits \<longrightarrow>
            create_progress_bar rnd used total_n =
              Inr \<lparr>bar_colours =
                     colours_of (Float_num (float_times rnd
                       (Finite (rnd (real_of_int used / real_of_int total_n))) 100)),
                   bar_percentage =
                     Float_num (float_times rnd
                       (Finite (rnd (real_of_int used / real_of_int total_n))) 100),
                   bar_available = total_n - used\<rparr>) \<and>
         (used \<le> total_n \<and> total_n < 10 ^ int_max_str_digits \<longrightarrow>
            (\<exists>b. create_progress_bar rnd used total_n = Inr b))"
proof -
  let ?q = "real_of_int used / real_of_int total_n"
  let ?L = "(10::int) ^ int_max_str_digits"
  let ?p = "if total_n = 0 then Int_num 0 else Float_num (float_times rnd (Finite (rnd ?q)) 100)"
  let ?over = "total_n \<noteq> 0 \<and> double_limit \<le> ?q"
  let ?long = "?L \<le> used \<or> ?L \<le> total_n \<or> ?L \<le> \<bar>total_n - used\<bar>"
  have q: "\<bar>?q\<bar> = ?q"
    using assms by simp
  have long: "str_ok used \<and> str_ok total_n \<and> str_ok (total_n - used) \<longleftrightarrow> \<not> ?long"
    using assms unfolding str_ok_def by linarith
  have err: "progress_bar_error used total_n =
     (if ?over then Some OverflowError else if \<not> ?long then None else Some Digits_ValueError)"
    unfolding progress_bar_error_cases q long by simp
  have a: "create_progress_bar rnd used total_n \<noteq> Inl ZeroDivisionError"
    unfolding create_progress_bar_Inl err by simp
  have b: "create_progress_bar rnd used total_n = Inl OverflowError \<longleftrightarrow> ?over"
    unfolding create_progress_bar_Inl err by simp
  have c: "create_progress_bar rnd used total_n = Inl Digits_ValueError \<longleftrightarrow> \<not> ?over \<and> ?long"
    unfolding create_progress_bar_Inl err by simp
  have ret: "create_progress_bar rnd used total_n =
       Inr \<lparr>bar_colours = colours_of ?p, bar_percentage = ?p, bar_available = total_n - used\<rparr>"
    if "\<not> ?over" and "\<not> ?long"
    using that by (intro create_progress_bar_Inr) (simp add: err)
  have small: "\<not> ?long" if "used < ?L" and "total_n < ?L"
    using that assms by linarith
  have d: "create_progress_bar rnd used total_n =
              Inr \<lparr>bar_colours = Green, bar_percentage = Int_num 0, bar_available = - used\<rparr>"
    if "total_n = 0" and "used < ?L"
  proof -
    from that have "\<not> ?over" by simp
    moreover from that have "\<not> ?long" by (intro small) simp_all
    ultimately have "create_progress_bar rnd used total_n =
       Inr \<lparr>bar_colours = colours_of ?p, bar_percentage = ?p, bar_available = total_n - used\<rparr>"
      by (rule ret)
    then show ?thesis using that(1) by (simp add: colours_of_def)
  qed
  have e: "create_progress_bar rnd used total_n =
              Inr \<lparr>bar_colours = colours_of (Float_num (float_times rnd (Finite (rnd ?q)) 100)),
                   bar_percentage = Float_num (float_times rnd (Finite (rnd ?q)) 100),
                   bar_available = total_n - used\<rparr>"
    if "total_n \<noteq> 0" and "?q < double_limit" and "used < ?L" and "total_n < ?L"
  proof -
    from that have "\<not> ?over" by simp
    moreover from that have "\<not> ?long" by (intro small)
    ultimately have "create_progress_bar rnd used total_n =
       Inr \<lparr>bar_colours = colours_of ?p, bar_percentage = ?p, bar_available = total_n - used\<rparr>"
      by (rule ret)
    then show ?thesis using that(1) by (simp add: colours_of_def)
  qed
  have f: "\<exists>b. create_progress_bar rnd used total_n = Inr b"
    if "used \<le> total_n" and "total_n < ?L"
  proof -
    have "\<not> ?over"
    proof
      assume o: ?over
      with that assms have "?q \<le> 1" by (simp add: divide_le_eq)
      with o one_less_double_limit show False by simp
    qed
    moreover from that have "\<not> ?long" by (intro small) simp_all
    ultimately show ?thesis using ret by blast
  qed
  from a b c d e f show ?thesis by blast
qed


theorem create_progress_bar_outcomes_witness:
  "create_progress_bar (\<lambda>x. x) 3 4 =
     Inr \<lparr>bar_colours = Orange, bar_percentage = Float_num (Finite 75), bar_available = 1\<rparr> \<and>
   create_progress_bar (\<lambda>x. x) 0 0 =
     Inr \<lparr>bar_colours = Green, bar_percentage = Int_num 0, bar_available = 0\<rparr> \<and>
   create_progress_bar (\<lambda>x. x) 5 0 =
     Inr \<lparr>bar_colours = Green, bar_percentage = Int_num 0, bar_available = - 5\<rparr> \<and>
   create_progress_bar (\<lambda>x. x) (2 ^ 1020) 1 =
     Inr \<lparr>bar_colours = Red, bar_percentage = Float_num PosInf,
          bar_available = 1 - 2 ^ 1020\<rparr>"
proof -
  have s: "(3::int) < 10 ^ int_max_str_digits" "(4::int) < 10 ^ int_max_str_digits"
    "(0::int) < 10 ^ int_max_str_digits" "(5::int) < 10 ^ int_max_str_digits"
    "(1::int) < 10 ^ int_max_str_digits"
    by (rule small_below_str_limit, simp)+
  have s': "(2::int) ^ 1020 < 10 ^ int_max_str_digits"
  proof -
    have "(2::int) ^ 1020 < 10 ^ 1020" by (rule power_strict_mono) simp_all
    also have "(10::int) ^ 1020 \<le> 10 ^ int_max_str_digits"
      by (rule power_increasing) (simp_all add: int_max_str_digits_def)
    finally show ?thesis .
  qed
  have q: "real_of_int 3 / real_of_int 4 < double_limit"
    by (rule below_double_limit) simp
  have q': "real_of_int (2 ^ 1020) / real_of_int 1 < double_limit"
    by (simp add: double_limit_def)
  have p: "float_times (\<lambda>x. x) (Finite (real_of_int 3 / real_of_int 4)) 100 = Finite 75"
  proof -
    have "\<not> double_limit \<le> 75" "\<not> 75 \<le> - double_limit"
      using below_double_limit [of 75] below_double_limit [of 0] by simp_all
    then show ?thesis by (simp add: float_times_def to_double_def)
  qed
  have p': "float_times (\<lambda>x. x) (Finite (real_of_int (2 ^ 1020) / real_of_int 1)) 100 = PosInf"
    by (simp add: float_times_def to_double_def double_limit_def)
  note a = create_progress_bar_outcomes [of 3 4 "\<lambda>x. x"]
  note b = create_progress_bar_outcomes [of 0 0 "\<lambda>x. x"]
  note c = create_progress_bar_outcomes [of 5 0 "\<lambda>x. x"]
  note d = create_progress_bar_outcomes [of "2 ^ 1020" 1 "\<lambda>x. x"]
  from a s q p have "create_progress_bar (\<lambda>x. x) 3 4 =
     Inr \<lparr>bar_colours = Orange, bar_percentage = Float_num (Finite 75), bar_available = 1\<rparr>"
    by (simp add: colours_of_def)
  moreover from b s have "create_progress_bar (\<lambda>x. x) 0 0 =
     Inr \<lparr>bar_colours = Green, bar_percentage = Int_num 0, bar_available = 0\<rparr>" by simp
  moreover from c s have "create_progress_bar (\<lambda>x. x) 5 0 =
     Inr \<lparr>bar_colours = Green, bar_percentage = Int_num 0, bar_available = - 5\<rparr>" by simp
  moreover from d s s' q' p' have "create_progress_bar (\<lambda>x. x) (2 ^ 1020) 1 =
     Inr \<lparr>bar_colours = Red, bar_percentage = Float_num PosInf,
          bar_available = 1 - 2 ^ 1020\<rparr>"
    by (simp add: colours_of_def)
  ultimately show ?thesis by (intro conjI)
qed

theorem create_progress_bar_raises_counterexample:
  "\<forall>rnd. (0::int) \<le> 2 ^ 1024 \<and> (0::int) \<le> 1 \<and>
     create_progress_bar rnd (2 ^ 1024) 1 = Inl OverflowError \<and>
     (0::int) \<le> 10 ^ int_max_str_digits \<and>
     create_progress_bar rnd (10 ^ int_max_str_digits) (10 ^ int_max_str_digits) =
       Inl Digits_ValueError"
proof -
  have a: "progress_bar_error (2 ^ 1024) 1 = Some OverflowError"
    by (simp add: progress_bar_error_cases double_limit_def)
  have "real_of_int (10 ^ int_max_str_digits) / real_of_int (10 ^ int_max_str_digits) = 1"
    by simp
  then have "\<bar>real_of_int (10 ^ int_max_str_digits) / real_of_int (10 ^ int_max_str_digits)\<bar>
               < double_limit"
    using one_less_double_limit by simp
  then have b: "progress_bar_error (10 ^ int_max_str_digits) (10 ^ int_max_str_digits) =
                  Some Digits_ValueError"
    unfolding progress_bar_error_cases by (simp add: str_ok_def)
  show ?thesis
    unfolding create_progress_bar_Inl a b by simp
qed

end
